theory Spec2Isabelle
  imports Main "HOL-Library.Word"
begin

section \<open>The MIDI carver of src/forensics/midi/carver.c\<close>

text \<open>
  The carver walks a byte buffer, looks for the tags \<open>MThd\<close> and \<open>MTrk\<close>, rebuilds
  MIDI files from what it finds and writes them out. The embedding below follows the C
  source function by function.

  Integer types are those of an LP64 platform (the program includes \<open>libgen.h\<close> and
  \<open>sys/stat.h\<close>): \<open>unsigned char\<close> is \<open>8 word\<close>, \<open>unsigned short\<close> is \<open>16 word\<close>,
  \<open>unsigned int\<close> is a \<open>nat\<close> reduced modulo \<open>2 ^ 32\<close> by \<open>u32\<close> wherever the C
  arithmetic can wrap, \<open>long\<close> is an \<open>int\<close> (no offset of a buffer reaches \<open>2 ^ 63\<close>).

  The C source reads the buffer without any bounds check. A read outside the buffer, the
  use of a field that was never assigned, and an access past a heap block are undefined
  behaviour in C; the model makes each of them a value of type \<open>fault\<close>, at which the
  run of the model stops. A fault is therefore not an error the program reports: it marks
  the point from which the C program has no defined behaviour.

  Outside the model: \<open>malloc\<close> and \<open>fopen\<close> are taken to succeed; of the lines the
  program prints, only the refusal of \<open>write_midi\<close> is kept; the reading of the command
  line and of the input file is the caller's, and the buffer is the file's content.
\<close>

subsection \<open>Bytes, buffers and faults\<close>

type_synonym byte = "8 word"

type_synonym buffer = "byte list"

datatype fault =
    ReadOutside int
  | Uninitialised
  | NullPointer
  | HeapOverflow

definition bindE :: "fault + 'a \<Rightarrow> ('a \<Rightarrow> fault + 'b) \<Rightarrow> fault + 'b" where
  "bindE m f = (case m of Inl e \<Rightarrow> Inl e | Inr x \<Rightarrow> f x)"

definition u32 :: "nat \<Rightarrow> nat" where
  "u32 n = n mod 4294967296"

text \<open>\<open>rd buf p\<close> is the C expression \<open>buffer[p]\<close> for a buffer of \<open>length buf\<close> bytes.\<close>

definition rd :: "buffer \<Rightarrow> int \<Rightarrow> fault + byte" where
  "rd buf p = (if 0 \<le> p \<and> p < int (length buf) then Inr (buf ! nat p) else Inl (ReadOutside p))"

text \<open>
  \<open>rd_block buf p n\<close> reads the \<open>n\<close> bytes at \<open>p\<close>, as \<open>memcpy\<close> and \<open>memcmp\<close> do.
  The fault names the first position outside the buffer.
\<close>

definition rd_block :: "buffer \<Rightarrow> int \<Rightarrow> nat \<Rightarrow> fault + byte list" where
  "rd_block buf p n =
     (if n = 0 then Inr []
      else if p < 0 then Inl (ReadOutside p)
      else if int (length buf) < p + int n then Inl (ReadOutside (max p (int (length buf))))
      else Inr (take n (drop (nat p) buf)))"

definition MThd_tag :: "byte list" where
  "MThd_tag = [0x4D, 0x54, 0x68, 0x64]"

definition MTrk_tag :: "byte list" where
  "MTrk_tag = [0x4D, 0x54, 0x72, 0x6B]"

definition end_of_track :: "byte list" where
  "end_of_track = [0x00, 0xFF, 0x2F, 0x00]"

text \<open>
  \<open>strncmp(&buffer[p], tag, 4) == 0\<close>: the bytes are compared one by one, and the
  comparison stops at the first difference or at a NUL byte, so a position is read only
  when all bytes before it matched.
\<close>

fun strncmp :: "buffer \<Rightarrow> int \<Rightarrow> byte list \<Rightarrow> fault + bool" where
  "strncmp buf p [] = Inr True"
| "strncmp buf p (c # cs) =
     (case rd buf p of
        Inl e \<Rightarrow> Inl e
      | Inr b \<Rightarrow> if b \<noteq> c then Inr False else if c = 0 then Inr True else strncmp buf (p + 1) cs)"

text \<open>\<open>memcmp(&buffer[p], xs, n) == 0\<close>: all \<open>n\<close> bytes are read.\<close>

definition memcmp :: "buffer \<Rightarrow> int \<Rightarrow> byte list \<Rightarrow> fault + bool" where
  "memcmp buf p xs = bindE (rd_block buf p (length xs)) (\<lambda>bs. Inr (bs = xs))"

text \<open>The four bytes at \<open>p\<close> as a big-endian number, as lines 171-174 compute it.\<close>

definition be32_at :: "buffer \<Rightarrow> int \<Rightarrow> fault + nat" where
  "be32_at buf p =
     bindE (rd buf p) (\<lambda>a. bindE (rd buf (p + 1)) (\<lambda>b.
     bindE (rd buf (p + 2)) (\<lambda>c. bindE (rd buf (p + 3)) (\<lambda>d.
       Inr (unat a * 16777216 + unat b * 65536 + unat c * 256 + unat d)))))"

definition be16_at :: "buffer \<Rightarrow> int \<Rightarrow> fault + 16 word" where
  "be16_at buf p =
     bindE (rd buf p) (\<lambda>a. bindE (rd buf (p + 1)) (\<lambda>b.
       Inr (of_nat (unat a * 256 + unat b))))"

subsection \<open>The data model\<close>

text \<open>
  \<open>struct mtrk\<close>: the fields \<open>extratrunc\<close> and \<open>data\<close> are \<open>None\<close> while they have
  not been assigned (the struct comes from \<open>malloc\<close>). \<open>data\<close> holds the whole heap
  block; the bytes the serializer writes are its first \<open>size\<close> bytes. The \<open>next\<close>
  pointers of the linked list are the order of a HOL list.
\<close>

record mtrk =
  size_mtrk :: nat
  extratrunc :: "bool option"
  data :: "byte list option"

record mthd =
  miditype :: "16 word"
  numtracks :: "16 word"
  timecode :: "16 word"
  is_damaged :: bool
  is_generated :: bool
  tracks :: "mtrk list"

datatype classification = OK | BAD | ORPH

text \<open>
  The output file \<open>mc-<offset>-<status>.mid\<close> is named by its offset and status; the
  events of a run are the files written and the refusals logged by \<open>write_midi\<close>.
\<close>

type_synonym filename = "int \<times> classification"

datatype event = Wrote filename "byte list" | RefusedTrackless

subsection \<open>The serializer: \<open>write_mtrk\<close> and \<open>write_midi\<close>\<close>

text \<open>
  Lines 45-48: the four bytes written for the length of a track, each assigned to an
  \<open>unsigned char\<close>.
\<close>

definition size_field :: "nat \<Rightarrow> byte list" where
  "size_field sz =
     [of_nat (sz div 1677216),
      of_nat ((sz mod 1677216) div 65536),
      of_nat ((sz mod 65536) div 256),
      of_nat (sz mod 256)]"

fun write_mtrk :: "mtrk list \<Rightarrow> fault + byte list" where
  "write_mtrk [] = Inr []"
| "write_mtrk (t # ts) =
     (case data t of
        None \<Rightarrow> Inl Uninitialised
      | Some d \<Rightarrow>
          if length d < size_mtrk t then Inl HeapOverflow
          else bindE (write_mtrk ts) (\<lambda>rest.
                 Inr (MTrk_tag @ size_field (size_mtrk t) @ take (size_mtrk t) d @ rest)))"

definition header_fields :: "mthd \<Rightarrow> byte list" where
  "header_fields midi =
     [of_nat (unat (miditype midi) div 256), of_nat (unat (miditype midi) mod 256),
      of_nat (unat (numtracks midi) div 256), of_nat (unat (numtracks midi) mod 256),
      of_nat (unat (timecode midi) div 256), of_nat (unat (timecode midi) mod 256)]"

definition write_midi :: "mthd \<Rightarrow> filename \<Rightarrow> fault + (int \<times> event list)" where
  "write_midi midi name =
     (if tracks midi = [] then Inr (1, [RefusedTrackless])
      else bindE (write_mtrk (tracks midi)) (\<lambda>tb.
             Inr (0, [Wrote name (MThd_tag @ [0, 0, 0, 6] @ header_fields midi @ tb)])))"

subsection \<open>The chunk parsers: \<open>extract_mthd\<close> and \<open>extract_mtrk\<close>\<close>

text \<open>
  \<open>extract_mthd(&buffer[p])\<close>. The header length at bytes 4 to 7 is read and only
  logged (lines 121-125); the model keeps the read and drops the value. A format 0 with
  a track count other than 1 becomes format 1 (lines 138-142).
\<close>

definition extract_mthd :: "buffer \<Rightarrow> int \<Rightarrow> fault + mthd option" where
  "extract_mthd buf p =
     bindE (strncmp buf p MThd_tag) (\<lambda>tag.
       if \<not> tag then Inr None
       else
         bindE (be32_at buf (p + 4)) (\<lambda>ipointer.
         bindE (be16_at buf (p + 8)) (\<lambda>ty.
         bindE (be16_at buf (p + 10)) (\<lambda>n.
         bindE (be16_at buf (p + 12)) (\<lambda>tc.
           Inr (Some \<lparr>miditype = (if ty = 0 \<and> n \<noteq> 1 then 1 else ty), numtracks = n,
                      timecode = tc, is_damaged = False, is_generated = False,
                      tracks = []\<rparr>))))))"

text \<open>
  Lines 184-197: the backward search for \<open>MThd\<close>, from \<open>ptr\<close> down to 9. The result
  says whether the loop left by \<open>break\<close>, and the value of \<open>ptr\<close> after the loop.
\<close>

function backtrack :: "buffer \<Rightarrow> int \<Rightarrow> nat \<Rightarrow> fault + (bool \<times> nat)" where
  "backtrack buf p ptr =
     (if 8 < ptr then
        (case strncmp buf (p + int ptr) MThd_tag of
           Inl e \<Rightarrow> Inl e
         | Inr True \<Rightarrow> Inr (True, ptr)
         | Inr False \<Rightarrow> backtrack buf p (ptr - 1))
      else Inr (False, ptr))"
  by pat_completeness auto
termination
  by (relation "measure (\<lambda>(buf, p, ptr). ptr)") auto

declare backtrack.simps [simp del]

text \<open>Lines 231-233 and 237-239: the payload is kept as it is.\<close>

definition accept_track :: "buffer \<Rightarrow> int \<Rightarrow> nat \<Rightarrow> fault + mtrk option" where
  "accept_track buf p sz =
     bindE (rd_block buf (p + 8) sz) (\<lambda>bs.
       Inr (Some \<lparr>size_mtrk = sz, extratrunc = Some False, data = Some bs\<rparr>))"

text \<open>
  Lines 189-194: the header tag was found at \<open>ptr\<close>. The block has \<open>ptr + 4\<close> bytes
  (computed in \<open>unsigned int\<close>: when the sum wraps, the copy runs past the block),
  \<open>ptr\<close> bytes are copied from \<open>buffer[8]\<close> on, the marker goes to \<open>data[ptr]\<close>, and
  the size becomes \<open>ptr - 8 + 4\<close>.
\<close>

definition split_track :: "buffer \<Rightarrow> int \<Rightarrow> nat \<Rightarrow> fault + mtrk option" where
  "split_track buf p ptr =
     (if u32 (ptr + 4) < ptr + 4 then Inl HeapOverflow
      else bindE (rd_block buf (p + 8) ptr) (\<lambda>bs.
             Inr (Some \<lparr>size_mtrk = u32 (u32 (ptr - 8) + 4), extratrunc = Some True,
                        data = Some (bs @ end_of_track)\<rparr>)))"

text \<open>Lines 201-205: no header tag; the marker is appended to the declared payload.\<close>

definition terminate_track :: "buffer \<Rightarrow> int \<Rightarrow> nat \<Rightarrow> fault + mtrk option" where
  "terminate_track buf p sz =
     (if u32 (sz + 4) < sz + 4 then Inl HeapOverflow
      else bindE (rd_block buf (p + 8) sz) (\<lambda>bs.
             Inr (Some \<lparr>size_mtrk = u32 (sz + 4), extratrunc = Some True,
                        data = Some (bs @ end_of_track)\<rparr>)))"

text \<open>
  \<open>extract_mtrk(&buffer[p])\<close>. When the search ends with \<open>ptr\<close> below 8 (a declared
  length below 4), neither line 188 nor line 198 applies and the track is returned with
  \<open>data\<close> and \<open>extratrunc\<close> never assigned.
\<close>

definition extract_mtrk :: "buffer \<Rightarrow> int \<Rightarrow> fault + mtrk option" where
  "extract_mtrk buf p =
     bindE (strncmp buf p MTrk_tag) (\<lambda>tag.
       if \<not> tag then Inr None
       else
         bindE (be32_at buf (p + 4)) (\<lambda>sz.
         bindE (memcmp buf (p + int (u32 (sz + 4))) end_of_track) (\<lambda>full.
           if full then accept_track buf p sz
           else
             bindE (memcmp buf (p + int (u32 (sz + 5))) (tl end_of_track)) (\<lambda>part.
               if part then accept_track buf p sz
               else
                 bindE (backtrack buf p (u32 (sz + 4))) (\<lambda>(found, ptr).
                   if found then split_track buf p ptr
                   else if ptr = 8 then terminate_track buf p sz
                   else Inr (Some \<lparr>size_mtrk = sz, extratrunc = None, data = None\<rparr>))))))"

subsection \<open>The orchestrator: \<open>smart_extract\<close>\<close>

text \<open>
  Lines 272-281: the forward search of the recovery, at the local offset whose absolute
  position is \<open>p\<close>. \<open>Some j\<close> is the distance at which \<open>MTrk\<close> was found;
  \<open>None\<close> is the loss of synchronisation (the bound was reached or \<open>MThd\<close> was met).
\<close>

function recovery_search :: "buffer \<Rightarrow> int \<Rightarrow> nat \<Rightarrow> nat \<Rightarrow> nat \<Rightarrow> fault + nat option" where
  "recovery_search buf p j eof_point max_distance =
     (if j < eof_point \<and> j < max_distance then
        (case strncmp buf (p + int j) MThd_tag of
           Inl e \<Rightarrow> Inl e
         | Inr True \<Rightarrow> Inr None
         | Inr False \<Rightarrow>
             (case strncmp buf (p + int j) MTrk_tag of
                Inl e \<Rightarrow> Inl e
              | Inr True \<Rightarrow> Inr (Some j)
              | Inr False \<Rightarrow> recovery_search buf p (j + 1) eof_point max_distance))
      else Inr None)"
  by pat_completeness auto
termination
  by (relation "measure (\<lambda>(buf, p, j, e, m). min e m - j)") auto

lemma rd_Inr_bounds: "rd buf p = Inr b \<Longrightarrow> 0 \<le> p \<and> p < int (length buf)"
  by (auto simp: rd_def split: if_splits)

lemma strncmp_MTrk_bounds:
  "strncmp buf p MTrk_tag = Inr True \<Longrightarrow> 0 \<le> p \<and> p < int (length buf)"
  by (auto simp: MTrk_tag_def dest: rd_Inr_bounds split: sum.splits if_splits)

declare recovery_search.simps [simp del]

lemma recovery_search_Some:
  "recovery_search buf p j e m = Inr (Some k) \<Longrightarrow> j \<le> k \<and> p + int k < int (length buf)"
proof (induction buf p j e m rule: recovery_search.induct)
  case (1 buf p j e m)
  from "1.prems" have inb: "j < e \<and> j < m"
    by (subst (asm) recovery_search.simps) (simp split: if_splits)
  from "1.prems" inb obtain hd where hd: "strncmp buf (p + int j) MThd_tag = Inr hd"
    by (subst (asm) recovery_search.simps) (auto split: sum.splits)
  from "1.prems" inb hd have nohd: "hd = False"
    by (subst (asm) recovery_search.simps) (auto split: bool.splits)
  from "1.prems" inb hd nohd obtain tr where tr: "strncmp buf (p + int j) MTrk_tag = Inr tr"
    by (subst (asm) recovery_search.simps) (auto split: sum.splits)
  show ?case
  proof (cases tr)
    case True
    with "1.prems" inb hd nohd tr have "k = j"
      by (subst (asm) recovery_search.simps) simp
    with True tr strncmp_MTrk_bounds[of buf "p + int j"] show ?thesis by simp
  next
    case False
    with "1.prems" inb hd nohd tr
    have "recovery_search buf p (j + 1) e m = Inr (Some k)"
      by (subst (asm) recovery_search.simps) simp
    with "1.IH"[of False False] inb hd nohd tr False show ?thesis by simp
  qed
qed

text \<open>
  The loop of lines 257-308. \<open>base\<close> is the absolute position of the pointer
  \<open>buffer\<close> that \<open>main\<close> passes, \<open>i\<close> the local offset, \<open>curtrack\<close> the
  16-bit counter. The result is the header after the loop and the final \<open>i\<close>.
  The measure of its termination counts the tracks still to parse and the bytes left.
\<close>

definition tracks_left :: "16 word \<Rightarrow> 16 word \<Rightarrow> nat" where
  "tracks_left cur n = (if cur < n then unat n - unat cur else 65537)"

lemma unat16_bound: "unat (n :: 16 word) < 65536"
  using unsigned_less[of n, where 'a=nat] by simp

lemma tracks_left_step:
  assumes "cur + 1 < n"
  shows "tracks_left (cur + 1) n < tracks_left cur n"
proof (cases "cur + 1 = 0")
  case True
  then have "cur = - 1" by (simp add: eq_neg_iff_add_eq_0)
  then have "\<not> cur < n" by simp
  with assms unat16_bound[of n] show ?thesis
    by (simp add: tracks_left_def)
next
  case False
  then have s: "unat (cur + 1) = Suc (unat cur)"
    using unatSuc[of cur] by (simp add: add.commute)
  from assms have "unat (cur + 1) < unat n" by (simp add: word_less_nat_alt)
  with s have "unat cur < unat n" "Suc (unat cur) < unat n" by simp_all
  with assms s show ?thesis
    by (simp add: tracks_left_def word_less_nat_alt)
qed

lemma smart_loop_measure:
  fixes a a' :: nat and l x y :: int
  shows "a' < a \<Longrightarrow> y - 4 \<le> x \<Longrightarrow> 5 * a' + nat (l - x) < 5 * a + nat (l - y)"
  by arith

function smart_loop ::
  "buffer \<Rightarrow> int \<Rightarrow> nat \<Rightarrow> nat \<Rightarrow> mthd \<Rightarrow> int \<Rightarrow> 16 word \<Rightarrow> fault + (mthd \<times> int)" where
  "smart_loop buf base eof_point max_distance midi i curtrack =
     (case strncmp buf (base + i) MThd_tag of
        Inl e \<Rightarrow> Inl e
      | Inr True \<Rightarrow> Inr (midi\<lparr>numtracks := curtrack, is_damaged := True\<rparr>, i)
      | Inr False \<Rightarrow>
          (case strncmp buf (base + i) MTrk_tag of
             Inl e \<Rightarrow> Inl e
           | Inr False \<Rightarrow>
               (case recovery_search buf (base + i) 1 eof_point max_distance of
                  Inl e \<Rightarrow> Inl e
                | Inr (Some j) \<Rightarrow>
                    smart_loop buf base eof_point max_distance (midi\<lparr>is_damaged := True\<rparr>)
                      (i + int j) curtrack
                | Inr None \<Rightarrow> Inr (midi\<lparr>is_damaged := True, numtracks := curtrack\<rparr>, i))
           | Inr True \<Rightarrow>
               (case extract_mtrk buf (base + i) of
                  Inl e \<Rightarrow> Inl e
                | Inr None \<Rightarrow> Inl NullPointer
                | Inr (Some newtrack) \<Rightarrow>
                    (case extratrunc newtrack of
                       None \<Rightarrow> Inl Uninitialised
                     | Some trunc \<Rightarrow>
                         if numtracks midi \<le> curtrack + 1
                         then Inr (midi\<lparr>tracks := tracks midi @ [newtrack]\<rparr>,
                                   i + int (u32 (size_mtrk newtrack + 8)) - (if trunc then 4 else 0))
                         else smart_loop buf base eof_point max_distance
                                (midi\<lparr>tracks := tracks midi @ [newtrack]\<rparr>)
                                (i + int (u32 (size_mtrk newtrack + 8)) - (if trunc then 4 else 0))
                                (curtrack + 1)))))"
  by pat_completeness auto
termination
proof (relation "measure (\<lambda>(buf, base, eof_point, max_distance, midi, i, curtrack).
          5 * tracks_left curtrack (numtracks midi) + nat (int (length buf) - (base + i)))",
       goal_cases)
  case 1
  show ?case by simp
next
  case (2 buf base eof_point max_distance midi i curtrack b1 b2 r newtrack trunc)
  then have "curtrack + 1 < numtracks midi" by simp
  from smart_loop_measure[OF tracks_left_step[OF this]] show ?case by simp
next
  case (3 buf base eof_point max_distance midi i curtrack b1 b2 r j)
  from recovery_search_Some[of buf "base + i" 1 eof_point max_distance j] 3
  show ?case by simp
qed

declare smart_loop.simps [simp del]

text \<open>
  Lines 310-318: the classification, the call of \<open>write_midi\<close> (whose return value is
  ignored) and the return of \<open>i\<close> as an \<open>unsigned int\<close>.
\<close>

definition smart_extract ::
  "mthd \<Rightarrow> buffer \<Rightarrow> int \<Rightarrow> nat \<Rightarrow> nat \<Rightarrow> int \<Rightarrow> fault + (nat \<times> event list)" where
  "smart_extract midi buf base eof_point max_distance offset =
     bindE (smart_loop buf base eof_point max_distance midi 0 0) (\<lambda>(midi', i).
     bindE (write_midi midi'
              (offset, if is_generated midi' then ORPH
                       else if \<not> is_damaged midi' then OK else BAD)) (\<lambda>(rc, evs).
       Inr (nat (i mod 4294967296), evs)))"

subsection \<open>The scanner: the loop of \<open>main\<close>\<close>

text \<open>Lines 386-390: the count of \<open>MTrk\<close> tags up to the next \<open>MThd\<close>.\<close>

function count_mtrk :: "buffer \<Rightarrow> int \<Rightarrow> 16 word \<Rightarrow> fault + 16 word" where
  "count_mtrk buf j n =
     (if j < int (length buf) - 3 then
        (case strncmp buf j MThd_tag of
           Inl e \<Rightarrow> Inl e
         | Inr True \<Rightarrow> Inr n
         | Inr False \<Rightarrow>
             (case strncmp buf j MTrk_tag of
                Inl e \<Rightarrow> Inl e
              | Inr True \<Rightarrow> count_mtrk buf (j + 1) (n + 1)
              | Inr False \<Rightarrow> count_mtrk buf (j + 1) n))
      else Inr n)"
  by pat_completeness auto
termination
  by (relation "measure (\<lambda>(buf, j, n). nat (int (length buf) - j))") auto

declare count_mtrk.simps [simp del]

text \<open>
  Lines 373-392: an orphan track at \<open>i\<close>. A header is made up, the tags are counted
  and the orchestrator runs at \<open>i\<close>; \<open>filesize - i\<close> is passed as an
  \<open>unsigned long\<close>.
\<close>

definition orphan_step :: "buffer \<Rightarrow> int \<Rightarrow> fault + (int \<times> event list)" where
  "orphan_step buf i =
     bindE (count_mtrk buf i 0) (\<lambda>n.
     bindE (smart_extract
              \<lparr>miditype = 1, numtracks = n, timecode = 120, is_damaged = True,
               is_generated = True, tracks = []\<rparr>
              buf i (nat ((int (length buf) - i) mod 18446744073709551616)) 32768 i)
       (\<lambda>(adv, evs). Inr (i + int adv, evs)))"

text \<open>Lines 393-400: a header at \<open>i\<close>; the orchestrator runs at \<open>i + 14\<close>.\<close>

definition header_step :: "buffer \<Rightarrow> int \<Rightarrow> fault + (int \<times> event list)" where
  "header_step buf i =
     bindE (extract_mthd buf i) (\<lambda>m.
       case m of
         None \<Rightarrow> Inl NullPointer
       | Some midi \<Rightarrow>
           bindE (smart_extract midi buf (i + 14)
                    (nat ((int (length buf) - (i + 14)) mod 18446744073709551616))
                    32768 (i + 14 - 14))
             (\<lambda>(adv, evs). Inr (i + 14 + int adv, evs)))"

text \<open>
  One iteration of the loop of lines 369-404 at offset \<open>i\<close>: the new offset and the
  events of the iteration.
\<close>

definition scan_step :: "buffer \<Rightarrow> int \<Rightarrow> fault + (int \<times> event list)" where
  "scan_step buf i =
     bindE (strncmp buf i MTrk_tag) (\<lambda>orphan.
       if orphan then orphan_step buf i
       else
         bindE (strncmp buf i MThd_tag) (\<lambda>header.
           if header then header_step buf i else Inr (i + 1, [])))"

text \<open>
  The whole loop, from offset \<open>i\<close> with the events \<open>acc\<close> so far. The loop need not
  end, so the result is an option: \<open>None\<close> when it runs forever.
\<close>

partial_function (option) scan :: "buffer \<Rightarrow> int \<Rightarrow> event list \<Rightarrow> (fault + event list) option" where
  "scan buf i acc =
     (if i < int (length buf) then
        (case scan_step buf i of
           Inl e \<Rightarrow> Some (Inl e)
         | Inr (i', evs) \<Rightarrow> scan buf i' (acc @ evs))
      else Some (Inr acc))"

section \<open>Evaluation of the model\<close>

lemmas carver_tags = MThd_tag_def MTrk_tag_def end_of_track_def

lemmas carver_loops = backtrack.simps recovery_search.simps smart_loop.simps count_mtrk.simps
  scan.simps

lemmas carver_defs = bindE_def rd_def rd_block_def memcmp_def be32_at_def be16_at_def u32_def
  extract_mthd_def extract_mtrk_def accept_track_def split_track_def terminate_track_def
  smart_extract_def orphan_step_def header_step_def scan_step_def write_midi_def size_field_def header_fields_def

lemma strncmp_MThd_not_MTrk:
  "strncmp buf p MThd_tag = Inr True \<Longrightarrow> strncmp buf p MTrk_tag = Inr False"
  by (auto simp: carver_tags split: sum.splits if_splits)

lemma extract_mthd_Some_tag:
  "extract_mthd buf p = Inr (Some h) \<Longrightarrow> strncmp buf p MThd_tag = Inr True"
  by (cases "strncmp buf p MThd_tag") (auto simp: extract_mthd_def bindE_def split: if_splits)

section \<open>Reads that stay inside the buffer (C2)\<close>

lemma length_tags [simp]:
  "length MThd_tag = 4" "length MTrk_tag = 4" "length end_of_track = 4"
  "length (tl end_of_track) = 3"
  by (simp_all add: carver_tags)

lemma rd_inside: "0 \<le> p \<Longrightarrow> p < int (length buf) \<Longrightarrow> rd buf p = Inr (buf ! nat p)"
  by (simp add: rd_def)

lemma rd_block_inside:
  "0 \<le> p \<Longrightarrow> p + int n \<le> int (length buf) \<Longrightarrow> rd_block buf p n = Inr (take n (drop (nat p) buf))"
  by (simp add: rd_block_def)

lemma strncmp_inside:
  "0 \<le> p \<Longrightarrow> p + int (length tag) \<le> int (length buf) \<Longrightarrow> \<exists>b. strncmp buf p tag = Inr b"
proof (induction tag arbitrary: p)
  case Nil
  show ?case by auto
next
  case (Cons c cs)
  from Cons.prems have "rd buf p = Inr (buf ! nat p)" by (simp add: rd_inside)
  moreover from Cons.prems Cons.IH[of "p + 1"] obtain b where "strncmp buf (p + 1) cs = Inr b"
    by auto
  ultimately show ?case by auto
qed

lemma memcmp_inside:
  "0 \<le> p \<Longrightarrow> p + int (length xs) \<le> int (length buf) \<Longrightarrow> \<exists>b. memcmp buf p xs = Inr b"
  by (simp add: memcmp_def bindE_def rd_block_inside)

lemma be32_at_inside:
  "0 \<le> p \<Longrightarrow> p + 4 \<le> int (length buf) \<Longrightarrow> \<exists>n. be32_at buf p = Inr n"
  by (simp add: be32_at_def bindE_def rd_inside)

lemma be16_at_inside:
  "0 \<le> p \<Longrightarrow> p + 2 \<le> int (length buf) \<Longrightarrow> \<exists>n. be16_at buf p = Inr n"
  by (simp add: be16_at_def bindE_def rd_inside)

lemma extract_mthd_inside:
  assumes "0 \<le> p" and "p + 14 \<le> int (length buf)"
  shows "\<exists>r. extract_mthd buf p = Inr r"
proof -
  from assms obtain b where b: "strncmp buf p MThd_tag = Inr b"
    using strncmp_inside[of p MThd_tag buf] by auto
  from assms obtain n where n: "be32_at buf (p + 4) = Inr n"
    using be32_at_inside[of "p + 4" buf] by auto
  from assms obtain ty where ty: "be16_at buf (p + 8) = Inr ty"
    using be16_at_inside[of "p + 8" buf] by auto
  from assms obtain nt where nt: "be16_at buf (p + 10) = Inr nt"
    using be16_at_inside[of "p + 10" buf] by auto
  from assms obtain tc where tc: "be16_at buf (p + 12) = Inr tc"
    using be16_at_inside[of "p + 12" buf] by auto
  from b n ty nt tc show ?thesis by (simp add: extract_mthd_def bindE_def)
qed

lemma backtrack_inside:
  "0 \<le> p \<Longrightarrow> p + int ptr + 4 \<le> int (length buf) \<Longrightarrow>
   \<exists>r. backtrack buf p ptr = Inr r \<and> snd r \<le> ptr"
proof (induction ptr)
  case 0
  show ?case by (simp add: backtrack.simps)
next
  case (Suc ptr)
  show ?case
  proof (cases "8 < Suc ptr")
    case False
    then show ?thesis by (simp add: backtrack.simps)
  next
    case True
    from Suc.prems obtain b where b: "strncmp buf (p + int (Suc ptr)) MThd_tag = Inr b"
      using strncmp_inside[of "p + int (Suc ptr)" MThd_tag buf] by auto
    show ?thesis
    proof (cases b)
      case True
      with b \<open>8 < Suc ptr\<close> show ?thesis by (simp add: backtrack.simps)
    next
      case False
      from Suc.prems Suc.IH obtain r where
        "backtrack buf p ptr = Inr r \<and> snd r \<le> ptr"
        by auto
      with b False \<open>8 < Suc ptr\<close> show ?thesis
        by (subst backtrack.simps) auto
    qed
  qed
qed

text \<open>\<open>inside r\<close>: the run that ended with \<open>r\<close> read no position outside the buffer.\<close>

definition inside :: "fault + 'a \<Rightarrow> bool" where
  "inside r = (case r of Inl (ReadOutside q) \<Rightarrow> False | Inl _ \<Rightarrow> True | Inr _ \<Rightarrow> True)"

lemma inside_Inr [simp]: "inside (Inr x)"
  by (simp add: inside_def)

lemma inside_HeapOverflow [simp]: "inside (Inl HeapOverflow)"
  by (simp add: inside_def)

lemma u32_le: "u32 n \<le> n"
  by (simp add: u32_def)

lemma extract_mtrk_inside:
  assumes p: "0 \<le> p" and len: "be32_at buf (p + 4) = Inr L"
      and room: "p + int L + 12 \<le> int (length buf)"
  shows "inside (extract_mtrk buf p)"
proof -
  from p room obtain tag where tag: "strncmp buf p MTrk_tag = Inr tag"
    using strncmp_inside[of p MTrk_tag buf] by auto
  have l4: "u32 (L + 4) \<le> L + 4" and l5: "u32 (L + 5) \<le> L + 5"
    by (rule u32_le)+
  from p room l4 obtain full where full: "memcmp buf (p + int (u32 (L + 4))) end_of_track = Inr full"
    using memcmp_inside[of "p + int (u32 (L + 4))" end_of_track buf]
    by auto
  from p room l5 obtain part where
    part: "memcmp buf (p + int (u32 (L + 5))) (tl end_of_track) = Inr part"
    using memcmp_inside[of "p + int (u32 (L + 5))" "tl end_of_track" buf]
    by auto
  from p room l4 obtain f k where
    bt: "backtrack buf p (u32 (L + 4)) = Inr (f, k)" and k: "k \<le> u32 (L + 4)"
    using backtrack_inside[of p "u32 (L + 4)" buf] by fastforce
  from p room have acc: "inside (accept_track buf p L)"
    by (simp add: accept_track_def bindE_def rd_block_inside)
  from p room have trm: "inside (terminate_track buf p L)"
    by (simp add: terminate_track_def bindE_def rd_block_inside)
  from p room k l4 have spl: "inside (split_track buf p k)"
    by (simp add: split_track_def bindE_def rd_block_inside)
  from tag len full part bt acc trm spl show ?thesis
    by (simp add: extract_mtrk_def bindE_def)
qed

lemma recovery_search_inside:
  "0 \<le> p \<Longrightarrow> p + int (min e m) + 3 \<le> int (length buf) \<Longrightarrow>
   \<exists>r. recovery_search buf p j e m = Inr r"
proof (induction buf p j e m rule: recovery_search.induct)
  case (1 buf p j e m)
  show ?case
  proof (cases "j < e \<and> j < m")
    case False
    then show ?thesis by (subst recovery_search.simps) auto
  next
    case True
    with "1.prems" have room: "0 \<le> p + int j" "p + int j + 4 \<le> int (length buf)"
      by (simp_all add: min_def split: if_splits)
    from room obtain hd where hd: "strncmp buf (p + int j) MThd_tag = Inr hd"
      using strncmp_inside[of "p + int j" MThd_tag buf] by auto
    from room obtain tr where tr: "strncmp buf (p + int j) MTrk_tag = Inr tr"
      using strncmp_inside[of "p + int j" MTrk_tag buf] by auto
    show ?thesis
    proof (cases hd)
      case True
      with \<open>j < e \<and> j < m\<close> hd show ?thesis
        by (subst recovery_search.simps) simp
    next
      case False
      note nohd = this
      show ?thesis
      proof (cases tr)
        case True
        with nohd \<open>j < e \<and> j < m\<close> hd tr show ?thesis
          by (subst recovery_search.simps) simp
      next
        case False
        with "1.IH"[of False False] nohd \<open>j < e \<and> j < m\<close> hd tr "1.prems"
        obtain r where "recovery_search buf p (j + 1) e m = Inr r" by auto
        with False nohd \<open>j < e \<and> j < m\<close> hd tr show ?thesis
          by (subst recovery_search.simps) simp
      qed
    qed
  qed
qed

text \<open>
  \<open>c2_buf\<close> is a file cut off after four bytes of a track that declares 16.
\<close>

definition c2_buf :: buffer where
  "c2_buf = MThd_tag @ [0, 0, 0, 6, 0, 1, 0, 1, 0, 0x60] @
            MTrk_tag @ [0, 0, 0, 0x10] @ [0x90, 0x3C, 0x40, 0]"

text \<open>
  The claim as stated fails on \<open>c2_buf\<close>: the probe for the marker at the declared
  length (line 180) reads position 34 of a buffer of 26 bytes. Nothing in the source
  compares a position with the size of the buffer, and no error is returned.
\<close>

theorem track_probe_reads_outside:
  "length c2_buf = 26
   \<and> extract_mtrk c2_buf 14 = Inl (ReadOutside 34)
   \<and> \<not> inside (extract_mtrk c2_buf 14)
   \<and> scan c2_buf 0 [] = Some (Inl (ReadOutside 34))"
  by (simp add: c2_buf_def inside_def carver_tags carver_defs carver_loops)

text \<open>
  Claim C2, as amended: the code has no bounds check, and a read outside the buffer is
  not turned into an error. What holds is that the reads are bounded by the data: the
  header parse at \<open>p\<close> reads no position from \<open>p + 14\<close> on; the track parse at \<open>p\<close>
  with the declared length \<open>L\<close> (marker probe, backward search and copy) reads no
  position from \<open>p + L + 12\<close> on; the forward search of the recovery at \<open>p\<close> reads no
  position from \<open>p + min eof_point max_distance + 3\<close> on. So each of them stays inside
  a buffer that extends that far.
\<close>

theorem reads_inside_when_buffer_extends:
  assumes "0 \<le> p"
  shows "(p + 14 \<le> int (length buf) \<longrightarrow> inside (extract_mthd buf p))
       \<and> (\<forall>L. be32_at buf (p + 4) = Inr L \<and> p + int L + 12 \<le> int (length buf)
              \<longrightarrow> inside (extract_mtrk buf p))
       \<and> (p + int (min eof_point max_distance) + 3 \<le> int (length buf)
              \<longrightarrow> inside (recovery_search buf p j eof_point max_distance))"
proof (intro conjI impI allI)
  assume "p + 14 \<le> int (length buf)"
  with assms extract_mthd_inside[of p buf] show "inside (extract_mthd buf p)"
    by auto
next
  fix L
  assume "be32_at buf (p + 4) = Inr L \<and> p + int L + 12 \<le> int (length buf)"
  with assms show "inside (extract_mtrk buf p)"
    by (simp add: extract_mtrk_inside)
next
  assume "p + int (min eof_point max_distance) + 3 \<le> int (length buf)"
  with assms recovery_search_inside[of p eof_point max_distance buf j]
  show "inside (recovery_search buf p j eof_point max_distance)"
    by auto
qed

definition c2_room_buf :: buffer where
  "c2_room_buf = MTrk_tag @ [0, 0, 0, 0x0C] @ [1, 2] @
                 MThd_tag @ [0, 0, 0, 6, 0, 1, 0, 1, 0, 0x60] @
                 MTrk_tag @ [0, 0, 0, 4] @ end_of_track"

theorem reads_inside_when_buffer_extends_witness:
  "(0::int) + 14 \<le> int (length c2_room_buf)
   \<and> inside (extract_mthd c2_room_buf 0)
   \<and> be32_at c2_room_buf (0 + 4) = Inr 12
   \<and> 0 + int 12 + 12 \<le> int (length c2_room_buf)
   \<and> inside (extract_mtrk c2_room_buf 0)
   \<and> 0 + int (min 5 32768) + 3 \<le> int (length c2_room_buf)
   \<and> inside (recovery_search c2_room_buf 0 1 5 32768)"
proof -
  have a: "(0::int) + 14 \<le> int (length c2_room_buf)"
    by (simp add: c2_room_buf_def carver_tags)
  have b: "be32_at c2_room_buf (0 + 4) = Inr 12"
    by (simp add: c2_room_buf_def carver_tags carver_defs)
  have c: "0 + int 12 + 12 \<le> int (length c2_room_buf)"
    by (simp add: c2_room_buf_def carver_tags)
  have d: "0 + int (min 5 32768) + 3 \<le> int (length c2_room_buf)"
    by (simp add: c2_room_buf_def carver_tags)
  from reads_inside_when_buffer_extends [of 0 c2_room_buf 5 32768 1] a b c d
  show ?thesis by blast
qed

section \<open>The serializer's length field (C1)\<close>

text \<open>
  The encoding the specification asks for: the big-endian four bytes of a length, the
  first byte being the length divided by 16,777,216.
\<close>

definition spec_u32be :: "nat \<Rightarrow> byte list" where
  "spec_u32be n =
     [of_nat (n div 16777216), of_nat ((n mod 16777216) div 65536),
      of_nat ((n mod 65536) div 256), of_nat (n mod 256)]"

definition big_track :: mtrk where
  "big_track = \<lparr>size_mtrk = 1677216, extratrunc = Some False, data = Some (replicate 1677216 0)\<rparr>"

text \<open>
  Claim C1: for every track the serializer writes, the four-byte length field is the
  big-endian encoding of the stored length, its first byte being the length divided by
  16,777,216. The code divides by 1,677,216 (line 45): for a track of 1,677,216 bytes
  \<open>write_mtrk\<close> writes the length field \<open>01 00 97 A0\<close>, where the big-endian encoding
  is \<open>00 19 97 A0\<close>.
\<close>

theorem write_mtrk_length_field_1677216:
  "write_mtrk [big_track] = Inr (MTrk_tag @ [1, 0, 0x97, 0xA0] @ replicate 1677216 0)
   \<and> spec_u32be (size_mtrk big_track) = [0, 0x19, 0x97, 0xA0]"
  by (simp add: big_track_def spec_u32be_def carver_defs)

section \<open>The split of an overwritten track (C3)\<close>

definition c3_buf :: buffer where
  "c3_buf = MTrk_tag @ [0, 0, 0, 0x0C] @ [1, 2] @
            MThd_tag @ [0, 0, 0, 6, 0, 1, 0, 1, 0, 0x60] @ MTrk_tag @ [0, 0, 0, 4] @ end_of_track"

text \<open>
  Claim C3: when the backward search finds a header tag at position \<open>P\<close> inside the
  declared payload, the track's payload is the buffer bytes from \<open>offset + 8\<close> up to
  \<open>P\<close> followed by the marker \<open>00 FF 2F 00\<close>, its length is \<open>(P - offset - 8) + 4\<close>
  and the repair flag is set. In \<open>c3_buf\<close> a track chunk at offset 0 declares 12 bytes
  and a header tag stands at \<open>P = 10\<close>. The code sets the length to 6 and the flag, but
  it copies \<open>P\<close> bytes instead of \<open>P - 8\<close> and puts the marker behind them (lines
  191-192): the six bytes that are written are \<open>01 02\<close> and the tag \<open>MThd\<close>, not
  \<open>01 02 00 FF 2F 00\<close>.
\<close>

theorem extract_mtrk_split_keeps_header_tag:
  "extract_mtrk c3_buf 0 =
     Inr (Some \<lparr>size_mtrk = 6, extratrunc = Some True,
                data = Some ([1, 2] @ MThd_tag @ [0, 0, 0, 6] @ end_of_track)\<rparr>)
   \<and> scan c3_buf 0 [] =
     Some (Inr [Wrote (0, ORPH) (MThd_tag @ [0, 0, 0, 6, 0, 1, 0, 1, 0, 0x78] @
                                 MTrk_tag @ [0, 0, 0, 6] @ [1, 2] @ MThd_tag),
                Wrote (10, OK) (drop 10 c3_buf)])"
  by (simp add: c3_buf_def carver_tags carver_defs carver_loops)

section \<open>The bound of the recovery search (C4)\<close>

definition c4_buf :: buffer where
  "c4_buf = MThd_tag @ [0, 0, 0, 6, 0, 1, 0, 2, 0, 0x60] @
            MTrk_tag @ [0, 0, 0, 4] @ end_of_track @ [0x58, 0x58]"

text \<open>
  Claim C4: in the recovery search, for every current offset, the forward search examines
  at most min(remaining bytes to the end of the blob measured from the current offset,
  32768) positions and stops without consuming at a header tag; when the bound is
  exhausted or a header tag is met, the track count becomes the number parsed so far, the
  header is marked damaged and the state is Done. The code bounds \<open>j\<close> by \<open>eof_point\<close>,
  the bytes left at the start of the orchestrator, while it searches at \<open>i + j\<close> (line
  272). In \<open>c4_buf\<close> (28 bytes) the header declares two tracks and one follows; at the
  local offset 12 (absolute 26) two bytes are left, the bound is still 14, and the search
  reads position 28, outside the buffer. With the bound 2 the same search ends in the
  loss of synchronisation.
\<close>

theorem recovery_search_bound_from_start:
  "length c4_buf = 28
   \<and> smart_loop c4_buf 14 14 32768
        \<lparr>miditype = 1, numtracks = 2, timecode = 0x60, is_damaged = False,
         is_generated = False, tracks = []\<rparr> 0 0 = Inl (ReadOutside 28)
   \<and> recovery_search c4_buf 26 1 14 32768 = Inl (ReadOutside 28)
   \<and> recovery_search c4_buf 26 1 2 32768 = Inr None
   \<and> scan c4_buf 0 [] = Some (Inl (ReadOutside 28))"
  by (simp add: c4_buf_def carver_tags carver_defs carver_loops word_le_nat_alt)

section \<open>The backward search for a header tag\<close>

lemma strncmp_MTrk_not_MThd:
  "strncmp buf p MTrk_tag = Inr True \<Longrightarrow> strncmp buf p MThd_tag = Inr False"
  by (auto simp: carver_tags split: sum.splits if_splits)

lemma backtrack_found:
  "backtrack buf p ptr = Inr (True, P) \<Longrightarrow>
   8 < P \<and> P \<le> ptr \<and> strncmp buf (p + int P) MThd_tag = Inr True"
proof (induction ptr)
  case 0
  then show ?case by (simp add: backtrack.simps)
next
  case (Suc ptr)
  show ?case
  proof (cases "8 < Suc ptr")
    case False
    with Suc.prems show ?thesis by (simp add: backtrack.simps)
  next
    case True
    note big = this
    show ?thesis
    proof (cases "strncmp buf (p + int (Suc ptr)) MThd_tag")
      case (Inl e)
      with big Suc.prems show ?thesis by (simp add: backtrack.simps)
    next
      case (Inr b)
      show ?thesis
      proof (cases b)
        case True
        with Inr big Suc.prems have "P = Suc ptr" by (simp add: backtrack.simps)
        with Inr True big show ?thesis by simp
      next
        case False
        with Inr big Suc.prems have "backtrack buf p ptr = Inr (True, P)"
          by (subst (asm) backtrack.simps) simp
        with Suc.IH show ?thesis by simp
      qed
    qed
  qed
qed

lemma u32_small: "n < 4294967296 \<Longrightarrow> u32 n = n"
  by (simp add: u32_def)

section \<open>Tracks shorter than the marker (C6)\<close>

definition c6_buf :: buffer where
  "c6_buf = MTrk_tag @ [0, 0, 0, 0] @ [0x58, 0x58, 0x58, 0x58]"

text \<open>
  Claim C6: for every track chunk with declared length \<open>L\<close>, the parser reports no
  repair if and only if the payload ends with \<open>00 FF 2F 00\<close> or with \<open>FF 2F 00\<close>, and
  then the payload is kept and the caller advances by \<open>L + 8\<close>. For a declared length
  below 4 whose payload has no marker, the search starts at \<open>ptr = L + 4 < 8\<close>: the loop
  of line 184 is not entered and the test \<open>ptr == 8\<close> of line 198 fails, so the track
  is returned with \<open>extratrunc\<close> and \<open>data\<close> never assigned. The chunk of \<open>c6_buf\<close>
  declares the length 0: no repair is reported where the claim asks for one, and
  \<open>smart_extract\<close> then reads the unassigned flag (line 293).
\<close>

theorem extract_mtrk_short_track_unassigned:
  "extract_mtrk c6_buf 0 = Inr (Some \<lparr>size_mtrk = 0, extratrunc = None, data = None\<rparr>)
   \<and> scan_step c6_buf 0 = Inl Uninitialised"
  by (simp add: c6_buf_def carver_tags carver_defs carver_loops)

section \<open>Well-formed files are reproduced (C7)\<close>

text \<open>
  The MIDI format as the specification writes it: a header chunk \<open>MThd\<close>, the length 6,
  format, track count and division, then the track chunks \<open>MTrk\<close>, length, payload.
  \<open>midi_file\<close> builds the bytes of a file from its format, its division and the
  payloads of its tracks.
\<close>

definition spec_u16be :: "16 word \<Rightarrow> byte list" where
  "spec_u16be v = [of_nat (unat v div 256), of_nat (unat v mod 256)]"

definition track_chunk :: "byte list \<Rightarrow> byte list" where
  "track_chunk payload = MTrk_tag @ spec_u32be (length payload) @ payload"

definition midi_file :: "16 word \<Rightarrow> 16 word \<Rightarrow> byte list list \<Rightarrow> byte list" where
  "midi_file fmt division payloads =
     MThd_tag @ spec_u32be 6 @ spec_u16be fmt @ spec_u16be (of_nat (length payloads)) @
     spec_u16be division @ concat (map track_chunk payloads)"

definition ends_with_marker :: "byte list \<Rightarrow> bool" where
  "ends_with_marker payload =
     (3 \<le> length payload \<and> drop (length payload - 3) payload = tl end_of_track)"

definition track_ok :: "byte list \<Rightarrow> bool" where
  "track_ok payload = (ends_with_marker payload \<and> length payload < 1677216)"

definition well_formed :: "16 word \<Rightarrow> byte list list \<Rightarrow> bool" where
  "well_formed fmt payloads =
     (payloads \<noteq> [] \<and> length payloads < 65536 \<and> (fmt = 0 \<longrightarrow> length payloads = 1) \<and>
      list_all track_ok payloads \<and>
      length (concat (map track_chunk payloads)) < 4294967296)"

definition parsed_track :: "byte list \<Rightarrow> mtrk" where
  "parsed_track payload =
     \<lparr>size_mtrk = length payload, extratrunc = Some False, data = Some payload\<rparr>"

text \<open>
  A well-formed file has at least one track and fewer than 65536, format 0 only with one
  track, and every payload ends with \<open>FF 2F 00\<close>. Two more conditions keep the file
  away from the wrap-around of the length arithmetic: every payload is shorter than
  1,677,216 bytes and the track chunks together are shorter than \<open>2 ^ 32\<close> bytes.
\<close>

lemma unat_byte_of_nat: "n < 256 \<Longrightarrow> unat (of_nat n :: byte) = n"
  by (simp add: unat_of_nat)

lemma be32_roundtrip:
  assumes "n < 4294967296"
  shows "unat (of_nat (n div 16777216) :: byte) * 16777216
         + unat (of_nat ((n mod 16777216) div 65536) :: byte) * 65536
         + unat (of_nat ((n mod 65536) div 256) :: byte) * 256
         + unat (of_nat (n mod 256) :: byte) = n"
proof -
  from assms have a: "n div 16777216 < 256" by simp
  have b: "(n mod 16777216) div 65536 < 256"
    by (simp add: less_mult_imp_div_less)
  have c: "(n mod 65536) div 256 < 256"
    by (simp add: less_mult_imp_div_less)
  have d: "n mod 256 < 256" by simp
  have m1: "(n mod 16777216) mod 65536 = n mod 65536"
    by (rule mod_mod_cancel) simp
  have m2: "(n mod 65536) mod 256 = n mod 256"
    by (rule mod_mod_cancel) simp
  have e1: "n div 16777216 * 16777216 + n mod 16777216 = n"
    by (rule div_mult_mod_eq)
  have e2: "(n mod 16777216) div 65536 * 65536 + n mod 65536 = n mod 16777216"
    using div_mult_mod_eq[of "n mod 16777216" 65536] m1 by simp
  have e3: "(n mod 65536) div 256 * 256 + n mod 256 = n mod 65536"
    using div_mult_mod_eq[of "n mod 65536" 256] m2 by simp
  from e1 e2 e3
  have "n div 16777216 * 16777216 + (n mod 16777216) div 65536 * 65536
        + (n mod 65536) div 256 * 256 + n mod 256 = n"
    by linarith
  with a b c d show ?thesis by (simp add: unat_byte_of_nat)
qed

lemma be16_roundtrip:
  "(of_nat (unat (of_nat (unat v div 256) :: byte) * 256
            + unat (of_nat (unat v mod 256) :: byte)) :: 16 word) = v"
proof -
  have a: "unat v div 256 < 256"
    using unat16_bound[of v] by (simp add: less_mult_imp_div_less)
  have b: "unat v mod 256 < 256" by simp
  have "unat v div 256 * 256 + unat v mod 256 = unat v" by (rule div_mult_mod_eq)
  with a b show ?thesis by (simp add: unat_byte_of_nat)
qed

lemma size_field_small: "n < 1677216 \<Longrightarrow> size_field n = spec_u32be n"
  by (simp add: size_field_def spec_u32be_def)

lemma rd_append:
  "0 \<le> k \<Longrightarrow> k < int (length B) \<Longrightarrow> rd (A @ B) (int (length A) + k) = Inr (B ! nat k)"
  by (simp add: rd_def nat_add_distrib nth_append)

lemma rd_block_append:
  "0 \<le> k \<Longrightarrow> k + int n \<le> int (length B) \<Longrightarrow>
   rd_block (A @ B) (int (length A) + k) n = Inr (take n (drop (nat k) B))"
  by (simp add: rd_block_def nat_add_distrib)

lemma strncmp_append:
  "0 \<le> k \<Longrightarrow> k + int (length tag) \<le> int (length B) \<Longrightarrow>
   strncmp (A @ B) (int (length A) + k) tag = strncmp B k tag"
proof (induction tag arbitrary: k)
  case Nil
  show ?case by simp
next
  case (Cons c cs)
  from Cons.prems have r: "rd (A @ B) (int (length A) + k) = Inr (B ! nat k)"
    by (simp add: rd_append)
  from Cons.prems have r': "rd B k = Inr (B ! nat k)"
    by (simp add: rd_inside)
  from Cons.prems Cons.IH[of "k + 1"]
  have "strncmp (A @ B) (int (length A) + k + 1) cs = strncmp B (k + 1) cs"
    by (simp add: add.assoc)
  with r r' show ?case by simp
qed

lemma be32_at_append:
  "0 \<le> k \<Longrightarrow> k + 4 \<le> int (length B) \<Longrightarrow>
   be32_at (A @ B) (int (length A) + k) = be32_at B k"
  using rd_append[of k B A] rd_append[of "k + 1" B A] rd_append[of "k + 2" B A]
    rd_append[of "k + 3" B A]
  by (simp add: be32_at_def rd_inside add.assoc)

lemma be16_at_append:
  "0 \<le> k \<Longrightarrow> k + 2 \<le> int (length B) \<Longrightarrow>
   be16_at (A @ B) (int (length A) + k) = be16_at B k"
  using rd_append[of k B A] rd_append[of "k + 1" B A]
  by (simp add: be16_at_def rd_inside add.assoc)

lemma memcmp_append:
  "0 \<le> k \<Longrightarrow> k + int (length xs) \<le> int (length B) \<Longrightarrow>
   memcmp (A @ B) (int (length A) + k) xs = Inr (take (length xs) (drop (nat k) B) = xs)"
  by (simp add: memcmp_def bindE_def rd_block_append)

lemma rd_block_append_nat:
  "k + n \<le> length B \<Longrightarrow>
   rd_block (A @ B) (int (length A) + int k) n = Inr (take n (drop k B))"
  using rd_block_append[of "int k" n B A] by simp

lemma memcmp_append_nat:
  "k + length xs \<le> length B \<Longrightarrow>
   memcmp (A @ B) (int (length A) + int k) xs = Inr (take (length xs) (drop k B) = xs)"
  using memcmp_append[of "int k" xs B A] by simp

lemma length_spec_u32be [simp]: "length (spec_u32be n) = 4"
  by (simp add: spec_u32be_def)

lemma length_spec_u16be [simp]: "length (spec_u16be v) = 2"
  by (simp add: spec_u16be_def)

lemma length_track_chunk [simp]: "length (track_chunk pl) = length pl + 8"
  by (simp add: track_chunk_def)

lemma strncmp_MTrk_here: "strncmp (MTrk_tag @ R) 0 MTrk_tag = Inr True"
  by (simp add: carver_tags rd_def)

lemma strncmp_MThd_here: "strncmp (MThd_tag @ R) 0 MThd_tag = Inr True"
  by (simp add: carver_tags rd_def)

lemma be32_at_chunk:
  assumes "n < 4294967296"
  shows "be32_at (T @ spec_u32be n @ R) (int (length T)) = Inr n"
proof -
  have "be32_at (T @ spec_u32be n @ R) (int (length T) + 0) = be32_at (spec_u32be n @ R) 0"
    by (rule be32_at_append) simp_all
  moreover have "be32_at (spec_u32be n @ R) 0 = Inr n"
    using be32_roundtrip[OF assms] by (simp add: be32_at_def bindE_def rd_def spec_u32be_def)
  ultimately show ?thesis by simp
qed

lemma be16_at_field: "be16_at (T @ spec_u16be v @ R) (int (length T)) = Inr v"
proof -
  have "be16_at (T @ spec_u16be v @ R) (int (length T) + 0) = be16_at (spec_u16be v @ R) 0"
    by (rule be16_at_append) simp_all
  moreover have "be16_at (spec_u16be v @ R) 0 = Inr v"
    using be16_roundtrip[of v] by (simp add: be16_at_def bindE_def rd_def spec_u16be_def)
  ultimately show ?thesis by simp
qed

lemma extract_mtrk_wf:
  assumes ok: "track_ok pl"
  shows "extract_mtrk (A @ track_chunk pl @ R) (int (length A)) = Inr (Some (parsed_track pl))"
proof -
  let ?L = "length pl"
  let ?B = "track_chunk pl @ R"
  from ok have L: "?L < 1677216" and L3: "3 \<le> ?L"
    and tail: "drop (?L - 3) pl = tl end_of_track"
    by (simp_all add: track_ok_def ends_with_marker_def)
  have B: "?B = (MTrk_tag @ spec_u32be ?L) @ pl @ R"
    by (simp add: track_chunk_def)
  have tag: "strncmp (A @ ?B) (int (length A)) MTrk_tag = Inr True"
    using strncmp_append[of 0 MTrk_tag ?B A] strncmp_MTrk_here[of "spec_u32be ?L @ pl @ R"]
    by (simp add: track_chunk_def)
  have len: "be32_at (A @ ?B) (int (length A) + 4) = Inr ?L"
    using be32_at_chunk[of ?L "A @ MTrk_tag" "pl @ R"] L by (simp add: track_chunk_def)
  from L have u4: "u32 (?L + 4) = ?L + 4" and u5: "u32 (?L + 5) = ?L + 5"
    by (simp_all add: u32_small)
  obtain full where full:
    "memcmp (A @ ?B) (int (length A) + int (?L + 4)) end_of_track = Inr full"
    using memcmp_append_nat[of "?L + 4" end_of_track ?B A] by simp
  have "take 3 (drop (?L + 5) ?B) = drop (?L - 3) pl"
    using L3 by (simp add: B)
  with tail have part:
    "memcmp (A @ ?B) (int (length A) + int (?L + 5)) (tl end_of_track) = Inr True"
    using memcmp_append_nat[of "?L + 5" "tl end_of_track" ?B A] by simp
  have "rd_block (A @ ?B) (int (length A) + 8) ?L = Inr (take ?L (drop 8 ?B))"
    using rd_block_append_nat[of 8 ?L ?B A] by simp
  then have acc: "accept_track (A @ ?B) (int (length A)) ?L = Inr (Some (parsed_track pl))"
    by (simp add: accept_track_def bindE_def parsed_track_def B)
  from tag len full part acc u4 u5 show ?thesis
    by (simp add: extract_mtrk_def bindE_def add.assoc)
qed

lemma write_mtrk_wf:
  "list_all track_ok pls \<Longrightarrow>
   write_mtrk (map parsed_track pls) = Inr (concat (map track_chunk pls))"
  by (induction pls)
     (simp_all add: parsed_track_def track_chunk_def track_ok_def size_field_small bindE_def)

lemma unat_succ16:
  fixes c n :: "16 word"
  assumes "unat c < unat n"
  shows "unat (c + 1) = unat c + 1"
proof -
  from assms unat16_bound[of n] have "unat c + 1 < 65536" by simp
  then show ?thesis by (simp add: unat_word_ariths)
qed

lemma strncmp_MTrk_chunk:
  "strncmp (A @ track_chunk pl @ R) (int (length A)) MTrk_tag = Inr True"
  using strncmp_append[of 0 MTrk_tag "track_chunk pl @ R" A]
    strncmp_MTrk_here[of "spec_u32be (length pl) @ pl @ R"]
  by (simp add: track_chunk_def)

lemma smart_loop_wf:
  assumes "list_all track_ok pls" and "pls \<noteq> []"
      and "unat (numtracks midi) = unat cur + length pls"
      and "base + i = int (length A)"
  shows "smart_loop (A @ concat (map track_chunk pls) @ R) base e m midi i cur
         = Inr (midi\<lparr>tracks := tracks midi @ map parsed_track pls\<rparr>,
                i + int (length (concat (map track_chunk pls))))"
  using assms
proof (induction pls arbitrary: A midi i cur)
  case Nil
  then show ?case by simp
next
  case (Cons pl rest)
  let ?buf = "A @ concat (map track_chunk (pl # rest)) @ R"
  let ?R = "concat (map track_chunk rest) @ R"
  have buf: "?buf = A @ track_chunk pl @ ?R" by simp
  from Cons.prems have ok: "track_ok pl" and oks: "list_all track_ok rest" by simp_all
  from Cons.prems have pos: "base + i = int (length A)" by simp
  have tag: "strncmp ?buf (base + i) MTrk_tag = Inr True"
    unfolding buf pos by (rule strncmp_MTrk_chunk)
  then have nohdr: "strncmp ?buf (base + i) MThd_tag = Inr False"
    by (rule strncmp_MTrk_not_MThd)
  have ext: "extract_mtrk ?buf (base + i) = Inr (Some (parsed_track pl))"
    unfolding buf pos using ok by (rule extract_mtrk_wf)
  from ok have adv: "u32 (length pl + 8) = length pl + 8"
    by (simp add: track_ok_def u32_small)
  from Cons.prems have cnt: "unat (numtracks midi) = unat cur + 1 + length rest" by simp
  then have suc: "unat (cur + 1) = unat cur + 1"
    by (intro unat_succ16[of cur "numtracks midi"]) simp
  show ?case
  proof (cases "rest = []")
    case True
    with cnt suc have "numtracks midi \<le> cur + 1" by (simp add: word_le_nat_alt)
    with True nohdr tag ext adv show ?thesis
      by (subst smart_loop.simps) (simp add: parsed_track_def)
  next
    case False
    with cnt suc have go: "\<not> numtracks midi \<le> cur + 1" by (simp add: word_le_nat_alt)
    let ?midi = "midi\<lparr>tracks := tracks midi @ [parsed_track pl]\<rparr>"
    have "smart_loop ((A @ track_chunk pl) @ concat (map track_chunk rest) @ R) base e m
            ?midi (i + int (length pl + 8)) (cur + 1)
          = Inr (?midi\<lparr>tracks := tracks ?midi @ map parsed_track rest\<rparr>,
                 i + int (length pl + 8) + int (length (concat (map track_chunk rest))))"
      using oks False cnt suc pos by (intro Cons.IH) simp_all
    then have rec: "smart_loop ?buf base e m ?midi (i + int (length pl + 8)) (cur + 1)
          = Inr (midi\<lparr>tracks := tracks midi @ map parsed_track (pl # rest)\<rparr>,
                 i + int (length (concat (map track_chunk (pl # rest)))))"
      by (simp add: add.assoc)
    from go nohdr tag ext adv rec show ?thesis
      by (subst smart_loop.simps) (simp add: parsed_track_def)
  qed
qed

definition file_header :: "16 word \<Rightarrow> 16 word \<Rightarrow> 16 word \<Rightarrow> byte list" where
  "file_header fmt n division =
     MThd_tag @ spec_u32be 6 @ spec_u16be fmt @ spec_u16be n @ spec_u16be division"

lemma length_file_header [simp]: "length (file_header fmt n dv) = 14"
  by (simp add: file_header_def)

lemma midi_file_split:
  "midi_file fmt dv pls
   = file_header fmt (of_nat (length pls)) dv @ concat (map track_chunk pls)"
  by (simp add: midi_file_def file_header_def)

lemma extract_mthd_file_header:
  assumes "fmt = 0 \<longrightarrow> n = 1"
  shows "extract_mthd (A @ file_header fmt n dv @ R) (int (length A))
         = Inr (Some \<lparr>miditype = fmt, numtracks = n, timecode = dv, is_damaged = False,
                      is_generated = False, tracks = []\<rparr>)"
proof -
  let ?buf = "A @ file_header fmt n dv @ R"
  have tag: "strncmp ?buf (int (length A)) MThd_tag = Inr True"
    using strncmp_append[of 0 MThd_tag "file_header fmt n dv @ R" A]
      strncmp_MThd_here[of "spec_u32be 6 @ spec_u16be fmt @ spec_u16be n @ spec_u16be dv @ R"]
    by (simp add: file_header_def)
  have len: "be32_at ?buf (int (length A) + 4) = Inr 6"
    using be32_at_chunk[of 6 "A @ MThd_tag" "spec_u16be fmt @ spec_u16be n @ spec_u16be dv @ R"]
    by (simp add: file_header_def)
  have ty: "be16_at ?buf (int (length A) + 8) = Inr fmt"
    using be16_at_field[of "A @ MThd_tag @ spec_u32be 6" fmt "spec_u16be n @ spec_u16be dv @ R"]
    by (simp add: file_header_def)
  have nt: "be16_at ?buf (int (length A) + 10) = Inr n"
    using be16_at_field[of "A @ MThd_tag @ spec_u32be 6 @ spec_u16be fmt" n "spec_u16be dv @ R"]
    by (simp add: file_header_def)
  have tc: "be16_at ?buf (int (length A) + 12) = Inr dv"
    using be16_at_field[of "A @ MThd_tag @ spec_u32be 6 @ spec_u16be fmt @ spec_u16be n" dv R]
    by (simp add: file_header_def)
  from tag len ty nt tc assms show ?thesis
    by (auto simp: extract_mthd_def bindE_def)
qed

lemma header_fields_file_header:
  "MThd_tag @ [0, 0, 0, 6] @ header_fields h
   = file_header (miditype h) (numtracks h) (timecode h)"
  by (simp add: file_header_def header_fields_def spec_u32be_def spec_u16be_def)

lemma unat_of_nat16: "n < 65536 \<Longrightarrow> unat (of_nat n :: 16 word) = n"
  by (simp add: unat_of_nat)

lemma header_step_well_formed:
  assumes wf: "well_formed fmt pls"
  shows "header_step (A @ midi_file fmt dv pls @ R) (int (length A))
         = Inr (int (length A) + int (length (midi_file fmt dv pls)),
                [Wrote (int (length A), OK) (midi_file fmt dv pls)])"
proof -
  let ?n = "of_nat (length pls) :: 16 word"
  let ?H = "file_header fmt ?n dv"
  let ?T = "concat (map track_chunk pls)"
  let ?buf = "A @ midi_file fmt dv pls @ R"
  let ?h = "\<lparr>miditype = fmt, numtracks = ?n, timecode = dv, is_damaged = False,
             is_generated = False, tracks = []\<rparr>"
  from wf have ne: "pls \<noteq> []" and n: "length pls < 65536" and oks: "list_all track_ok pls"
    and total: "length ?T < 4294967296" and f0: "fmt = 0 \<longrightarrow> length pls = 1"
    by (simp_all add: well_formed_def)
  have buf: "?buf = A @ ?H @ (?T @ R)" and buf': "?buf = (A @ ?H) @ ?T @ R"
    by (simp_all add: midi_file_split)
  from f0 have "fmt = 0 \<longrightarrow> ?n = 1" by auto
  then have hdr: "extract_mthd ?buf (int (length A)) = Inr (Some ?h)"
    unfolding buf by (rule extract_mthd_file_header)
  have loop: "smart_loop ?buf (int (length A) + 14) e 32768 ?h 0 0
              = Inr (?h\<lparr>tracks := tracks ?h @ map parsed_track pls\<rparr>, 0 + int (length ?T))" for e
    unfolding buf' using oks ne n by (intro smart_loop_wf) (simp_all add: unat_of_nat16)
  have wr: "write_midi (?h\<lparr>tracks := tracks ?h @ map parsed_track pls\<rparr>) nm
            = Inr (0, [Wrote nm (midi_file fmt dv pls)])" for nm
    using ne write_mtrk_wf[OF oks] header_fields_file_header[of "?h\<lparr>tracks := map parsed_track pls\<rparr>"]
    by (simp add: write_midi_def bindE_def midi_file_split)
  from total have ret: "nat (int (length ?T) mod 4294967296) = length ?T"
    by (simp add: nat_mod_distrib)
  have ext: "smart_extract ?h ?buf (int (length A) + 14) e 32768 off
             = Inr (length ?T, [Wrote (off, OK) (midi_file fmt dv pls)])" for e off
    using loop[of e] wr ret by (simp add: smart_extract_def bindE_def)
  from hdr ext show ?thesis
    by (simp add: header_step_def bindE_def midi_file_split)
qed

definition c7_buf :: buffer where
  "c7_buf = MTrk_tag @ [0, 0, 0, 0x1A] @ midi_file 1 0x60 [end_of_track]"

text \<open>
  The claim as stated fails on \<open>c7_buf\<close>: a well-formed file of 26 bytes stands at
  offset 8, behind the eight bytes of a track chunk that declares 26 bytes. The scanner
  takes the chunk as an orphan track, finds the marker of the embedded file at the
  declared end, and consumes the file as the payload of that track. The only file
  written is classified ORPH; the embedded file is not reconstructed.
\<close>

theorem embedded_file_swallowed_by_orphan_track:
  "well_formed 1 [end_of_track]
   \<and> c7_buf = (MTrk_tag @ [0, 0, 0, 0x1A]) @ midi_file 1 0x60 [end_of_track] @ []
   \<and> scan c7_buf 0 []
       = Some (Inr [Wrote (0, ORPH)
                     (MThd_tag @ [0, 0, 0, 6, 0, 1, 0, 1, 0, 0x78] @
                      MTrk_tag @ [0, 0, 0, 0x1A] @ midi_file 1 0x60 [end_of_track])])"
  by (simp add: c7_buf_def midi_file_def track_chunk_def spec_u32be_def spec_u16be_def
        well_formed_def track_ok_def ends_with_marker_def
        carver_tags carver_defs carver_loops)

text \<open>
  Claim C7, as amended: for every well-formed file that stands in the buffer at an offset
  at which an iteration of the scanner begins, that iteration writes one file, classified
  OK and named by the offset, whose bytes are those of the file, and moves the offset
  just behind the file. Scanning such a file alone writes exactly that file again, so
  the output of such an extraction is a fixed point.
\<close>

theorem well_formed_file_reconstructed:
  assumes wf: "well_formed fmt payloads"
  shows "scan_step (pre @ midi_file fmt division payloads @ post) (int (length pre))
           = Inr (int (length pre) + int (length (midi_file fmt division payloads)),
                  [Wrote (int (length pre), OK) (midi_file fmt division payloads)])
         \<and> scan (midi_file fmt division payloads) 0 []
           = Some (Inr [Wrote (0, OK) (midi_file fmt division payloads)])"
proof -
  let ?F = "midi_file fmt division payloads"
  have tag: "strncmp (A @ ?F @ R) (int (length A)) MThd_tag = Inr True" for A R
    using strncmp_append[of 0 MThd_tag "?F @ R" A]
      strncmp_MThd_here[of "spec_u32be 6 @ spec_u16be fmt @
        spec_u16be (of_nat (length payloads)) @ spec_u16be division @
        concat (map track_chunk payloads) @ R"]
    by (simp add: midi_file_def)
  have step: "scan_step (A @ ?F @ R) (int (length A))
              = Inr (int (length A) + int (length ?F), [Wrote (int (length A), OK) ?F])" for A R
    using tag[of A R] strncmp_MThd_not_MTrk[OF tag[of A R]] header_step_well_formed[OF wf, of A division R]
    by (simp add: scan_step_def bindE_def)
  have len: "0 < length ?F" by (simp add: midi_file_split)
  from step[of "[]" "[]"] have s0: "scan_step ?F 0 = Inr (int (length ?F), [Wrote (0, OK) ?F])"
    by simp
  have "scan ?F 0 [] = scan ?F (int (length ?F)) [Wrote (0, OK) ?F]"
    using len s0 by (subst scan.simps) simp
  also have "\<dots> = Some (Inr [Wrote (0, OK) ?F])"
    by (subst scan.simps) simp
  finally show ?thesis using step[of pre post] by simp
qed

theorem well_formed_file_reconstructed_witness:
  "well_formed 1 [end_of_track]
   \<and> scan_step ([0x58] @ midi_file 1 0x60 [end_of_track] @ [0x59]) (int (length [0x58 :: byte]))
       = Inr (27, [Wrote (1, OK) (midi_file 1 0x60 [end_of_track])])
   \<and> scan (midi_file 1 0x60 [end_of_track]) 0 []
       = Some (Inr [Wrote (0, OK) (midi_file 1 0x60 [end_of_track])])"
proof -
  have wf: "well_formed 1 [end_of_track]"
    by (simp add: well_formed_def track_ok_def ends_with_marker_def track_chunk_def
          spec_u32be_def carver_tags)
  have len: "length (midi_file 1 0x60 [end_of_track]) = 26"
    by (simp add: midi_file_def track_chunk_def carver_tags)
  from well_formed_file_reconstructed [OF wf, of "[0x58]" "0x60" "[0x59]"] wf len
  show ?thesis by simp
qed

section \<open>The track count that is written (C8)\<close>

definition c8_buf :: buffer where
  "c8_buf = MThd_tag @ [0, 0, 0, 6, 0, 1, 0, 0, 0, 0x60] @ MTrk_tag @ [0, 0, 0, 4] @ end_of_track"

text \<open>
  Claim C8: the track count written into the output header equals the number of tracks of
  the header at write time, in every termination path of the orchestrator. The collision
  and the loss of synchronisation set \<open>numtracks\<close> to \<open>curtrack\<close> (lines 262 and 285);
  the path that ends on \<open>curtrack >= numtracks\<close> (line 303) does not. The header of
  \<open>c8_buf\<close> declares 0 tracks and one track follows: the loop parses it, ends with
  \<open>numtracks = 0\<close> and one track, and the file that is written says 0 tracks and holds
  one.
\<close>

theorem declared_zero_tracks_count_not_updated:
  "smart_loop c8_buf 14 12 32768
        \<lparr>miditype = 1, numtracks = 0, timecode = 0x60, is_damaged = False,
         is_generated = False, tracks = []\<rparr> 0 0
     = Inr (\<lparr>miditype = 1, numtracks = 0, timecode = 0x60, is_damaged = False,
             is_generated = False,
             tracks = [\<lparr>size_mtrk = 4, extratrunc = Some False, data = Some end_of_track\<rparr>]\<rparr>, 12)
   \<and> scan c8_buf 0 [] =
       Some (Inr [Wrote (0, OK) (MThd_tag @ [0, 0, 0, 6, 0, 1, 0, 0, 0, 0x60] @
                                 MTrk_tag @ [0, 0, 0, 4] @ end_of_track)])"
  by (simp add: c8_buf_def carver_tags carver_defs carver_loops)

section \<open>A header without tracks is not written (C9)\<close>

text \<open>
  Claim C9: for every header whose track sequence is empty the serializer refuses to
  write: no file is produced, an error is returned and logged, and the scan continues
  with the next structure. \<open>write_midi\<close> returns 1 and its only event is the logged
  refusal; \<open>smart_extract\<close> ignores the return value and returns its offset, so the
  iteration of \<open>main\<close> ends without a fault and the loop goes on behind the header.
\<close>

theorem trackless_header_refused_scan_continues:
  assumes trackless: "tracks midi = []"
  shows "write_midi midi name = Inr (1, [RefusedTrackless])
         \<and> (\<forall>buf i h k acc.
               i < int (length buf) \<and> extract_mthd buf i = Inr (Some h) \<and>
               smart_loop buf (i + 14)
                 (nat ((int (length buf) - (i + 14)) mod 18446744073709551616)) 32768 h 0 0
                 = Inr (midi, k)
               \<longrightarrow> scan_step buf i
                     = Inr (i + 14 + int (nat (k mod 4294967296)), [RefusedTrackless])
                   \<and> scan buf i acc
                     = scan buf (i + 14 + int (nat (k mod 4294967296)))
                         (acc @ [RefusedTrackless]))"
proof (intro conjI allI impI)
  show w: "write_midi midi nm = Inr (1, [RefusedTrackless])" for nm
    using trackless by (simp add: write_midi_def)
  fix buf i h k acc
  assume run: "i < int (length buf) \<and> extract_mthd buf i = Inr (Some h) \<and>
               smart_loop buf (i + 14)
                 (nat ((int (length buf) - (i + 14)) mod 18446744073709551616)) 32768 h 0 0
                 = Inr (midi, k)"
  then have tag: "strncmp buf i MThd_tag = Inr True"
    by (simp add: extract_mthd_Some_tag)
  then have notrk: "strncmp buf i MTrk_tag = Inr False"
    by (rule strncmp_MThd_not_MTrk)
  have ext: "smart_extract h buf (i + 14)
               (nat ((int (length buf) - (i + 14)) mod 18446744073709551616)) 32768 (i + 14 - 14)
             = Inr (nat (k mod 4294967296), [RefusedTrackless])"
    unfolding smart_extract_def using run w by (simp add: bindE_def)
  show step: "scan_step buf i
              = Inr (i + 14 + int (nat (k mod 4294967296)), [RefusedTrackless])"
    unfolding scan_step_def header_step_def using tag notrk run ext by (simp add: bindE_def)
  show "scan buf i acc
          = scan buf (i + 14 + int (nat (k mod 4294967296))) (acc @ [RefusedTrackless])"
    using run step by (subst scan.simps) simp
qed

definition c9_buf :: buffer where
  "c9_buf = MThd_tag @ [0, 0, 0, 6, 0, 1, 0, 1, 0, 0x60] @
            MThd_tag @ [0, 0, 0, 6, 0, 1, 0, 1, 0, 0x60] @ MTrk_tag @ [0, 0, 0, 4] @ end_of_track"

definition c9_header :: mthd where
  "c9_header = \<lparr>miditype = 1, numtracks = 1, timecode = 0x60, is_damaged = False,
                 is_generated = False, tracks = []\<rparr>"

text \<open>
  In \<open>c9_buf\<close> a header that declares one track is followed at once by a complete file:
  the first header ends without tracks, is refused, and the scan writes the second one.
\<close>

theorem trackless_header_refused_scan_continues_witness:
  "(0::int) < int (length c9_buf)
   \<and> extract_mthd c9_buf 0 = Inr (Some c9_header)
   \<and> tracks (c9_header\<lparr>numtracks := 0, is_damaged := True\<rparr>) = []
   \<and> write_midi (c9_header\<lparr>numtracks := 0, is_damaged := True\<rparr>) (0, BAD)
       = Inr (1, [RefusedTrackless])
   \<and> scan_step c9_buf 0 = Inr (14, [RefusedTrackless])
   \<and> scan c9_buf 0 [] = Some (Inr [RefusedTrackless, Wrote (14, OK) (drop 14 c9_buf)])"
proof -
  have a: "(0::int) < int (length c9_buf)"
    by (simp add: c9_buf_def carver_tags)
  have b: "extract_mthd c9_buf 0 = Inr (Some c9_header)"
    by (simp add: c9_buf_def c9_header_def carver_tags carver_defs)
  have c: "smart_loop c9_buf (0 + 14)
             (nat ((int (length c9_buf) - (0 + 14)) mod 18446744073709551616)) 32768 c9_header 0 0
           = Inr (c9_header\<lparr>numtracks := 0, is_damaged := True\<rparr>, 0)"
    by (simp add: c9_buf_def c9_header_def carver_tags carver_defs carver_loops)
  have d: "tracks (c9_header\<lparr>numtracks := 0, is_damaged := True\<rparr>) = []"
    by (simp add: c9_header_def)
  have e: "scan c9_buf 14 [RefusedTrackless]
           = Some (Inr [RefusedTrackless, Wrote (14, OK) (drop 14 c9_buf)])"
    by (simp add: c9_buf_def carver_tags carver_defs carver_loops)
  from trackless_header_refused_scan_continues [OF d, of "(0, BAD)"] a b c
  have "write_midi (c9_header\<lparr>numtracks := 0, is_damaged := True\<rparr>) (0, BAD)
          = Inr (1, [RefusedTrackless])
        \<and> scan_step c9_buf 0 = Inr (14, [RefusedTrackless])
        \<and> scan c9_buf 0 [] = scan c9_buf 14 ([] @ [RefusedTrackless])"
    by fastforce
  with a b d e show ?thesis by simp
qed

section \<open>Progress of the scanner (C10)\<close>

definition c10_buf :: buffer where
  "c10_buf = MTrk_tag @ [0xFF, 0xFF, 0xFF, 0xF8] @ MThd_tag @ replicate 4294967280 0 @ end_of_track"

lemma c10_step: "\<exists>evs. scan_step c10_buf 0 = Inr (0, evs)"
  by (simp add: c10_buf_def carver_tags carver_defs carver_loops nth_append)

lemma c10_diverges: "scan c10_buf 0 acc = None"
proof -
  obtain evs where st: "scan_step c10_buf 0 = Inr (0, evs)"
    using c10_step by blast
  have len: "(0::int) < int (length c10_buf)"
    by (simp add: c10_buf_def carver_tags)
  have "\<not> (buf = c10_buf \<and> i = 0)" if ret: "scan buf i a = Some r" for buf i a r
  proof (rule scan.raw_induct[where P = "\<lambda>b j a r. \<not> (b = c10_buf \<and> j = 0)", OF _ ret])
    fix scan' :: "buffer \<Rightarrow> int \<Rightarrow> event list \<Rightarrow> (fault + event list) option"
      and b :: buffer and j :: int and a :: "event list" and r :: "fault + event list"
    assume IH: "\<And>b j a r. scan' b j a = Some r \<Longrightarrow> \<not> (b = c10_buf \<and> j = 0)"
    assume eq: "(if j < int (length b)
                 then case scan_step b j of Inl e \<Rightarrow> Some (Inl e)
                      | Inr (i', evs) \<Rightarrow> scan' b i' (a @ evs)
                 else Some (Inr a)) = Some r"
    show "\<not> (b = c10_buf \<and> j = 0)"
    proof
      assume "b = c10_buf \<and> j = 0"
      with eq st len have "scan' c10_buf 0 (a @ evs) = Some r" by simp
      from IH[OF this] show False by simp
    qed
  qed
  then show ?thesis by (cases "scan c10_buf 0 acc") auto
qed

text \<open>
  Claim C10: for every input buffer the scanner's pass terminates: on each iteration the
  offset \<open>i\<close> strictly increases (by 1, by 14 plus the consumed length at a header, by
  the consumed length at an orphan track, each positive) and the loop ends when \<open>i\<close>
  reaches the end. The consumed length of a track is computed as \<open>size + 8\<close> in
  \<open>unsigned int\<close> (line 292) and returned as \<open>unsigned int\<close> (line 318), so it wraps
  at \<open>2 ^ 32\<close>. \<open>c10_buf\<close> is a buffer of \<open>2 ^ 32\<close> bytes: an orphan track chunk at
  offset 0 that declares \<open>0xFFFFFFF8\<close> bytes, whose payload fills the buffer and ends
  with the marker. Every read is inside the buffer, the track is accepted, the consumed
  length is \<open>0xFFFFFFF8 + 8 = 0\<close>, the iteration ends at the offset 0 where it began,
  and the loop never ends.
\<close>

theorem scan_4GiB_track_no_progress:
  "length c10_buf = 4294967296
   \<and> map_sum id fst (scan_step c10_buf 0) = Inr 0
   \<and> scan c10_buf 0 [] = None"
proof -
  obtain evs where st: "scan_step c10_buf 0 = Inr (0, evs)"
    using c10_step by blast
  have "length c10_buf = 4294967296" by (simp add: c10_buf_def carver_tags)
  with st c10_diverges show ?thesis by simp
qed

section \<open>What holds of the parts that the failing claims are about\<close>

subsection \<open>The marker decides the repair for declared lengths from 4 on\<close>

lemma backtrack_not_found:
  "backtrack buf p ptr = Inr (False, k) \<Longrightarrow> k = min ptr 8"
proof (induction ptr)
  case 0
  then show ?case by (simp add: backtrack.simps)
next
  case (Suc ptr)
  show ?case
  proof (cases "8 < Suc ptr")
    case False
    with Suc.prems show ?thesis by (auto simp: backtrack.simps)
  next
    case True
    with Suc.prems have "backtrack buf p ptr = Inr (False, k)"
      by (subst (asm) backtrack.simps) (auto split: sum.splits bool.splits)
    with Suc.IH True show ?thesis by simp
  qed
qed

lemma memcmp_inside_eq:
  "0 \<le> p \<Longrightarrow> p + int (length xs) \<le> int (length buf) \<Longrightarrow>
   memcmp buf p xs = Inr (take (length xs) (drop (nat p) buf) = xs)"
  by (simp add: memcmp_def bindE_def rd_block_inside)

text \<open>
  For a track chunk at \<open>p\<close> that declares \<open>L\<close> bytes, with \<open>4 \<le> L\<close> and a buffer that
  extends to \<open>p + L + 12\<close>, \<open>extract_mtrk\<close> returns a track whose flag is assigned; the
  flag is 0 if and only if the payload ends with \<open>00 FF 2F 00\<close> or with \<open>FF 2F 00\<close>, and
  then the track keeps the \<open>L\<close> bytes of the payload and the orchestrator advances by
  \<open>L + 8\<close>.
\<close>

theorem extract_mtrk_marker_decides_repair:
  assumes tag: "strncmp buf p MTrk_tag = Inr True"
      and len: "be32_at buf (p + 4) = Inr L"
      and L4: "4 \<le> L"
      and p: "0 \<le> p"
      and room: "p + int L + 12 \<le> int (length buf)"
      and small: "L + 12 < 4294967296"
  shows "\<exists>t x. extract_mtrk buf p = Inr (Some t) \<and> extratrunc t = Some x
           \<and> (\<not> x \<longleftrightarrow> drop (L - 4) (take L (drop (nat p + 8) buf)) = end_of_track
                       \<or> drop (L - 3) (take L (drop (nat p + 8) buf)) = tl end_of_track)
           \<and> (\<not> x \<longrightarrow> size_mtrk t = L \<and> data t = Some (take L (drop (nat p + 8) buf))
                       \<and> int (u32 (size_mtrk t + 8)) - (if x then 4 else 0) = int L + 8)"
proof -
  let ?pl = "take L (drop (nat p + 8) buf)"
  from small have u4: "u32 (L + 4) = L + 4" and u5: "u32 (L + 5) = L + 5"
    and u8: "u32 (L + 8) = L + 8"
    by (simp_all add: u32_small)
  from p L4 have i4: "nat (p + int (L + 4)) = (L - 4) + (nat p + 8)"
    and i3: "nat (p + int (L + 5)) = (L - 3) + (nat p + 8)"
    by linarith+
  from L4 have d4: "L - (L - 4) = 4" and d3: "L - (L - 3) = 3" by simp_all
  have e4: "drop (L - 4) ?pl = take 4 (drop (nat (p + int (L + 4))) buf)"
    unfolding i4 by (simp only: drop_take drop_drop d4)
  have e3: "drop (L - 3) ?pl = take 3 (drop (nat (p + int (L + 5))) buf)"
    unfolding i3 by (simp only: drop_take drop_drop d3)
  from p room have full: "memcmp buf (p + int (L + 4)) end_of_track
                          = Inr (drop (L - 4) ?pl = end_of_track)"
    using memcmp_inside_eq[of "p + int (L + 4)" end_of_track buf] e4 by simp
  from p room have part: "memcmp buf (p + int (L + 5)) (tl end_of_track)
                          = Inr (drop (L - 3) ?pl = tl end_of_track)"
    using memcmp_inside_eq[of "p + int (L + 5)" "tl end_of_track" buf] e3 by simp
  from p room have acc: "accept_track buf p L
      = Inr (Some \<lparr>size_mtrk = L, extratrunc = Some False, data = Some ?pl\<rparr>)"
    by (simp add: accept_track_def bindE_def rd_block_inside nat_add_distrib)
  show ?thesis
  proof (cases "drop (L - 4) ?pl = end_of_track \<or> drop (L - 3) ?pl = tl end_of_track")
    case True
    with tag len full part acc u4 u5 u8 show ?thesis
      by (auto simp: extract_mtrk_def bindE_def)
  next
    case False
    from p room obtain f k where bt: "backtrack buf p (L + 4) = Inr (f, k)" and k: "k \<le> L + 4"
      using backtrack_inside[of p "L + 4" buf] by fastforce
    show ?thesis
    proof (cases f)
      case True
      from p room k small have "\<exists>t. split_track buf p k = Inr (Some t) \<and> extratrunc t = Some True"
        by (simp add: split_track_def bindE_def rd_block_inside u32_small)
      with False True tag len full part bt u4 u5 show ?thesis
        by (auto simp: extract_mtrk_def bindE_def)
    next
      case nf: False
      with bt L4 have k8: "k = 8" using backtrack_not_found[of buf p "L + 4" k] by simp
      from p room small have "\<exists>t. terminate_track buf p L = Inr (Some t) \<and> extratrunc t = Some True"
        by (simp add: terminate_track_def bindE_def rd_block_inside u32_small)
      with False nf k8 tag len full part bt u4 u5 show ?thesis
        by (auto simp: extract_mtrk_def bindE_def)
    qed
  qed
qed

definition x1_buf :: buffer where
  "x1_buf = MTrk_tag @ [0, 0, 0, 4] @ end_of_track @ [0x58, 0x58, 0x58, 0x58]"

theorem extract_mtrk_marker_decides_repair_witness:
  "strncmp x1_buf 0 MTrk_tag = Inr True
   \<and> be32_at x1_buf (0 + 4) = Inr 4
   \<and> (0::int) + int 4 + 12 \<le> int (length x1_buf)
   \<and> extract_mtrk x1_buf 0
       = Inr (Some \<lparr>size_mtrk = 4, extratrunc = Some False, data = Some end_of_track\<rparr>)
   \<and> drop (4 - 4) (take 4 (drop (nat 0 + 8) x1_buf)) = end_of_track"
proof -
  have a: "strncmp x1_buf 0 MTrk_tag = Inr True"
    by (simp add: x1_buf_def carver_tags carver_defs)
  have b: "be32_at x1_buf (0 + 4) = Inr 4"
    by (simp add: x1_buf_def carver_tags carver_defs)
  have c: "(0::int) + int 4 + 12 \<le> int (length x1_buf)"
    by (simp add: x1_buf_def carver_tags)
  have d: "extract_mtrk x1_buf 0
       = Inr (Some \<lparr>size_mtrk = 4, extratrunc = Some False, data = Some end_of_track\<rparr>)"
    by (simp add: x1_buf_def carver_tags carver_defs)
  have e: "drop (4 - 4) (take 4 (drop (nat 0 + 8) x1_buf)) = end_of_track"
    by (simp add: x1_buf_def carver_tags)
  from extract_mtrk_marker_decides_repair [OF a b _ _ c] a b c d e
  show ?thesis by simp
qed

subsection \<open>The track count after the orchestrator's loop\<close>

lemma smart_loop_count_invariant:
  "smart_loop buf base e m midi i cur = Inr (midi', k) \<Longrightarrow>
   unat cur = length (tracks midi) \<Longrightarrow> cur < numtracks midi \<Longrightarrow>
   unat (numtracks midi') = length (tracks midi')"
proof (induction buf base e m midi i cur rule: smart_loop.induct)
  case (1 buf base e m midi i cur)
  note run = "1.prems"(1) and inv = "1.prems"(2) and lt = "1.prems"(3)
  from run obtain hd where hd: "strncmp buf (base + i) MThd_tag = Inr hd"
    by (subst (asm) smart_loop.simps) (auto split: sum.splits)
  show ?case
  proof (cases hd)
    case True
    with run hd inv show ?thesis
      by (subst (asm) smart_loop.simps) auto
  next
    case False
    note nohd = this
    from run hd nohd obtain tr where tr: "strncmp buf (base + i) MTrk_tag = Inr tr"
      by (subst (asm) smart_loop.simps) (auto split: sum.splits)
    show ?thesis
    proof (cases tr)
      case False
      note notr = this
      from run hd nohd tr notr obtain r where
        r: "recovery_search buf (base + i) 1 e m = Inr r"
        by (subst (asm) smart_loop.simps) (auto split: sum.splits)
      show ?thesis
      proof (cases r)
        case None
        with run hd nohd tr notr r inv show ?thesis
          by (subst (asm) smart_loop.simps) auto
      next
        case (Some j)
        with run hd nohd tr notr r
        have "smart_loop buf base e m (midi\<lparr>is_damaged := True\<rparr>) (i + int j) cur
              = Inr (midi', k)"
          by (subst (asm) smart_loop.simps) simp
        with "1.IH"(2)[of hd tr r j] hd nohd tr notr r Some inv lt show ?thesis
          by simp
      qed
    next
      case True
      note istr = this
      from run hd nohd tr istr obtain t x where
        t: "extract_mtrk buf (base + i) = Inr (Some t)" and x: "extratrunc t = Some x"
        by (subst (asm) smart_loop.simps) (auto split: sum.splits option.splits)
      from lt have suc: "unat (cur + 1) = unat cur + 1"
        by (intro unat_succ16[of cur "numtracks midi"]) (simp add: word_less_nat_alt)
      show ?thesis
      proof (cases "numtracks midi \<le> cur + 1")
        case True
        with run hd nohd tr istr t x
        have res: "midi' = midi\<lparr>tracks := tracks midi @ [t]\<rparr>"
          by (subst (asm) smart_loop.simps) auto
        from True lt suc have "unat (numtracks midi) = unat cur + 1"
          by (simp add: word_le_nat_alt word_less_nat_alt)
        with res inv show ?thesis by simp
      next
        case False
        with run hd nohd tr istr t x
        have "smart_loop buf base e m (midi\<lparr>tracks := tracks midi @ [t]\<rparr>)
                (i + int (u32 (size_mtrk t + 8)) - (if x then 4 else 0)) (cur + 1)
              = Inr (midi', k)"
          by (subst (asm) smart_loop.simps) simp
        with "1.IH"(1)[of hd tr "Some t" t x] hd nohd tr istr t x False inv suc
        show ?thesis by (simp add: not_le)
      qed
    qed
  qed
qed

text \<open>
  When the header declares at least one track, the loop of \<open>smart_extract\<close> ends, on
  every path, with \<open>numtracks\<close> equal to the number of tracks of the header, and the
  two count bytes of the output header are that number.
\<close>

theorem written_count_matches_tracks:
  assumes "smart_loop buf base eof_point max_distance midi 0 0 = Inr (midi', k)"
      and "tracks midi = []"
      and "numtracks midi \<noteq> 0"
  shows "unat (numtracks midi') = length (tracks midi')
         \<and> take 2 (drop 2 (header_fields midi'))
           = [of_nat (length (tracks midi') div 256), of_nat (length (tracks midi') mod 256)]"
proof -
  from assms(3) have "0 < numtracks midi" by (simp add: word_greater_zero_iff)
  with smart_loop_count_invariant[OF assms(1)] assms(2)
  have "unat (numtracks midi') = length (tracks midi')" by simp
  then show ?thesis by (simp add: header_fields_def)
qed

definition x2_buf :: buffer where
  "x2_buf = MThd_tag @ [0, 0, 0, 6, 0, 1, 0, 3, 0, 0x60] @ MTrk_tag @ [0, 0, 0, 4] @ end_of_track @
            MThd_tag"

definition x2_header :: mthd where
  "x2_header = \<lparr>miditype = 1, numtracks = 3, timecode = 0x60, is_damaged = False,
                 is_generated = False, tracks = []\<rparr>"

theorem written_count_matches_tracks_witness:
  "smart_loop x2_buf 14 16 32768 x2_header 0 0
     = Inr (x2_header\<lparr>numtracks := 1, is_damaged := True,
                       tracks := [\<lparr>size_mtrk = 4, extratrunc = Some False,
                                   data = Some end_of_track\<rparr>]\<rparr>, 12)
   \<and> tracks x2_header = [] \<and> numtracks x2_header \<noteq> 0
   \<and> take 2 (drop 2 (header_fields
         (x2_header\<lparr>numtracks := 1, is_damaged := True,
                     tracks := [\<lparr>size_mtrk = 4, extratrunc = Some False,
                                 data = Some end_of_track\<rparr>]\<rparr>)))
       = [0, 1]"
proof -
  have a: "smart_loop x2_buf 14 16 32768 x2_header 0 0
     = Inr (x2_header\<lparr>numtracks := 1, is_damaged := True,
                       tracks := [\<lparr>size_mtrk = 4, extratrunc = Some False,
                                   data = Some end_of_track\<rparr>]\<rparr>, 12)"
    by (simp add: x2_buf_def x2_header_def carver_tags carver_defs carver_loops word_le_nat_alt)
  have b: "tracks x2_header = []" by (simp add: x2_header_def)
  have c: "numtracks x2_header \<noteq> 0" by (simp add: x2_header_def)
  from written_count_matches_tracks [OF a b c] a b c show ?thesis by simp
qed

subsection \<open>The length field of tracks below 1,677,216 bytes\<close>

text \<open>
  For a track shorter than 1,677,216 bytes \<open>write_mtrk\<close> writes the tag, the big-endian
  encoding of the length and the payload.
\<close>

theorem length_field_right_below_1677216:
  assumes "size_mtrk t < 1677216" and "data t = Some d" and "size_mtrk t \<le> length d"
  shows "write_mtrk [t] = Inr (MTrk_tag @ spec_u32be (size_mtrk t) @ take (size_mtrk t) d)"
  using assms by (simp add: bindE_def size_field_def spec_u32be_def)

theorem length_field_right_below_1677216_witness:
  "size_mtrk \<lparr>size_mtrk = 4, extratrunc = Some False, data = Some end_of_track\<rparr> < 1677216
   \<and> write_mtrk [\<lparr>size_mtrk = 4, extratrunc = Some False, data = Some end_of_track\<rparr>]
       = Inr (MTrk_tag @ [0, 0, 0, 4] @ end_of_track)"
proof -
  let ?t = "\<lparr>size_mtrk = 4, extratrunc = Some False, data = Some end_of_track\<rparr>"
  have a: "size_mtrk ?t < 1677216" by simp
  have b: "data ?t = Some end_of_track" by simp
  have c: "size_mtrk ?t \<le> length end_of_track" by simp
  from length_field_right_below_1677216 [OF a b c] a show ?thesis
    by (simp add: spec_u32be_def carver_tags)
qed

subsection \<open>Progress of the scanner on buffers below 4 GiB\<close>

text \<open>
  \<open>advance t x\<close> is what lines 292-293 add to the offset for the track \<open>t\<close> with the
  flag \<open>x\<close>. On a buffer shorter than \<open>2 ^ 32 - 4\<close> bytes a track that is parsed
  without a fault advances the offset by at least 8 and not beyond the end of the buffer.
\<close>

lemma strncmp_Inr_bounds:
  "strncmp buf p (c # cs) = Inr b \<Longrightarrow> 0 \<le> p \<and> p < int (length buf)"
  by (auto dest: rd_Inr_bounds split: sum.splits)

lemma rd_block_Inr_bounds:
  "rd_block buf p n = Inr bs \<Longrightarrow> 0 < n \<Longrightarrow> 0 \<le> p \<and> p + int n \<le> int (length buf)"
  by (auto simp: rd_block_def split: if_splits)

lemma memcmp_Inr_bounds:
  "memcmp buf p xs = Inr b \<Longrightarrow> xs \<noteq> [] \<Longrightarrow> 0 \<le> p \<and> p + int (length xs) \<le> int (length buf)"
  by (cases "rd_block buf p (length xs)")
     (auto simp: memcmp_def bindE_def dest: rd_block_Inr_bounds)

lemma unat_byte_le: "unat (b :: byte) \<le> 255"
  using unsigned_less[of b, where 'a=nat] by simp

lemma be32_at_bound: "be32_at buf p = Inr L \<Longrightarrow> L < 4294967296"
proof -
  assume a: "be32_at buf p = Inr L"
  then obtain b0 b1 b2 b3 :: byte where
    "L = unat b0 * 16777216 + unat b1 * 65536 + unat b2 * 256 + unat b3"
    by (auto simp: be32_at_def bindE_def split: sum.splits)
  with unat_byte_le[of b0] unat_byte_le[of b1] unat_byte_le[of b2] unat_byte_le[of b3]
  show ?thesis by linarith
qed

lemma backtrack_low: "ptr \<le> 8 \<Longrightarrow> backtrack buf p ptr = Inr (False, ptr)"
  by (simp add: backtrack.simps)

definition advance :: "mtrk \<Rightarrow> bool \<Rightarrow> int" where
  "advance t x = int (u32 (size_mtrk t + 8)) - (if x then 4 else 0)"

lemma extract_mtrk_advance:
  assumes ext: "extract_mtrk buf p = Inr (Some t)"
      and flag: "extratrunc t = Some x"
      and short: "length buf < 4294967292"
  shows "8 \<le> advance t x \<and> p + advance t x \<le> int (length buf)"
proof -
  from ext obtain tag where tag: "strncmp buf p MTrk_tag = Inr tag"
    by (cases "strncmp buf p MTrk_tag") (auto simp: extract_mtrk_def bindE_def)
  with ext have tagT: "tag" by (auto simp: extract_mtrk_def bindE_def split: if_splits)
  from tag tagT strncmp_MTrk_bounds[of buf p] have p: "0 \<le> p" by simp
  from ext tag tagT obtain L where len: "be32_at buf (p + 4) = Inr L"
    by (cases "be32_at buf (p + 4)") (auto simp: extract_mtrk_def bindE_def)
  from len have Lb: "L < 4294967296" by (rule be32_at_bound)
  from ext tag tagT len obtain full where
    full: "memcmp buf (p + int (u32 (L + 4))) end_of_track = Inr full"
    by (cases "memcmp buf (p + int (u32 (L + 4))) end_of_track")
       (auto simp: extract_mtrk_def bindE_def)
  from memcmp_Inr_bounds[OF full]
  have inb: "p + int (u32 (L + 4)) + 4 \<le> int (length buf)"
    by (simp add: end_of_track_def)
  have acc: "8 \<le> advance t x \<and> p + advance t x \<le> int (length buf)"
    if a: "accept_track buf p L = Inr (Some t)"
  proof (cases "L + 4 < 4294967296")
    case True
    with inb have "p + int L + 8 \<le> int (length buf)" by (simp add: u32_small)
    moreover from this p short have "u32 (L + 8) = L + 8" by (intro u32_small) linarith
    moreover from a flag have "size_mtrk t = L" "x = False"
      by (auto simp: accept_track_def bindE_def split: sum.splits)
    ultimately show ?thesis by (simp add: advance_def)
  next
    case False
    from a obtain bs where "rd_block buf (p + 8) L = Inr bs"
      by (cases "rd_block buf (p + 8) L") (auto simp: accept_track_def bindE_def)
    with False rd_block_Inr_bounds[of buf "p + 8" L bs] p short show ?thesis by simp
  qed
  show ?thesis
  proof (cases full)
    case True
    with ext tag tagT len full have "accept_track buf p L = Inr (Some t)"
      by (simp add: extract_mtrk_def bindE_def)
    then show ?thesis by (rule acc)
  next
    case nofull: False
    from ext tag tagT len full nofull obtain part where
      part: "memcmp buf (p + int (u32 (L + 5))) (tl end_of_track) = Inr part"
      by (cases "memcmp buf (p + int (u32 (L + 5))) (tl end_of_track)")
         (auto simp: extract_mtrk_def bindE_def)
    show ?thesis
    proof (cases part)
      case True
      with ext tag tagT len full nofull part have "accept_track buf p L = Inr (Some t)"
        by (simp add: extract_mtrk_def bindE_def)
      then show ?thesis by (rule acc)
    next
      case nopart: False
      from ext tag tagT len full nofull part nopart obtain f k where
        bt: "backtrack buf p (u32 (L + 4)) = Inr (f, k)"
        by (cases "backtrack buf p (u32 (L + 4))") (auto simp: extract_mtrk_def bindE_def)
      from ext tag tagT len full nofull part nopart bt
      have rest: "(if f then split_track buf p k
                   else if k = 8 then terminate_track buf p L
                   else Inr (Some \<lparr>size_mtrk = L, extratrunc = None, data = None\<rparr>))
                  = Inr (Some t)"
        by (simp add: extract_mtrk_def bindE_def)
      show ?thesis
      proof (cases f)
        case True
        with bt backtrack_found[of buf p "u32 (L + 4)" k]
        have k: "8 < k" "k \<le> u32 (L + 4)" by simp_all
        from True rest have sp: "split_track buf p k = Inr (Some t)" by simp
        then have nov: "\<not> u32 (k + 4) < k + 4"
          by (auto simp: split_track_def split: if_splits)
        then have k4: "k + 4 < 4294967296"
          by (simp add: u32_def)
        from sp nov flag k have "size_mtrk t = u32 (u32 (k - 8) + 4)" "x = True"
          by (auto simp: split_track_def bindE_def split: sum.splits)
        with k k4 have "advance t x = int k"
          by (simp add: advance_def u32_small)
        with k inb show ?thesis by simp
      next
        case False
        show ?thesis
        proof (cases "k = 8")
          case True
          with False rest have tm: "terminate_track buf p L = Inr (Some t)" by simp
          from False bt have "k = min (u32 (L + 4)) 8" by (simp add: backtrack_not_found)
          with True have big: "8 \<le> u32 (L + 4)" by simp
          have nowrap: "L + 4 < 4294967296"
          proof (rule ccontr)
            assume "\<not> L + 4 < 4294967296"
            with Lb have "u32 (L + 4) = L + 4 - 4294967296"
              by (simp add: u32_def mod_if)
            with Lb big show False by simp
          qed
          with inb have room: "p + int L + 8 \<le> int (length buf)" by (simp add: u32_small)
          with p short have "L + 12 < 4294967296" by linarith
          moreover from tm flag nowrap have "size_mtrk t = u32 (L + 4)" "x = True"
            by (auto simp: terminate_track_def bindE_def u32_small split: sum.splits if_splits)
          ultimately have "advance t x = int L + 8"
            by (simp add: advance_def u32_small)
          with room show ?thesis by simp
        next
          case k8: False
          with False rest flag show ?thesis by auto
        qed
      qed
    qed
  qed
qed

lemma strncmp_tag_bounds:
  "strncmp buf p MThd_tag = Inr b \<Longrightarrow> 0 \<le> p \<and> p < int (length buf)"
  "strncmp buf p MTrk_tag = Inr b \<Longrightarrow> 0 \<le> p \<and> p < int (length buf)"
  unfolding MThd_tag_def MTrk_tag_def by (erule strncmp_Inr_bounds)+

lemma smart_loop_progress:
  "smart_loop buf base e m midi i cur = Inr (midi', k) \<Longrightarrow> length buf < 4294967292 \<Longrightarrow>
   i \<le> k \<and> base + k \<le> int (length buf) \<and> 0 \<le> base + i
   \<and> (strncmp buf (base + i) MTrk_tag = Inr True \<longrightarrow> i + 8 \<le> k)"
proof (induction buf base e m midi i cur rule: smart_loop.induct)
  case (1 buf base e m midi i cur)
  note run = "1.prems"(1) and short = "1.prems"(2)
  from run obtain hd where hd: "strncmp buf (base + i) MThd_tag = Inr hd"
    by (subst (asm) smart_loop.simps) (auto split: sum.splits)
  from strncmp_tag_bounds(1)[OF hd] have pos: "0 \<le> base + i" "base + i < int (length buf)"
    by simp_all
  show ?case
  proof (cases hd)
    case True
    with run hd have "k = i" by (subst (asm) smart_loop.simps) auto
    with pos True hd strncmp_MThd_not_MTrk[of buf "base + i"] show ?thesis by simp
  next
    case False
    note nohd = this
    from run hd nohd obtain tr where tr: "strncmp buf (base + i) MTrk_tag = Inr tr"
      by (subst (asm) smart_loop.simps) (auto split: sum.splits)
    show ?thesis
    proof (cases tr)
      case False
      note notr = this
      from run hd nohd tr notr obtain r where
        r: "recovery_search buf (base + i) 1 e m = Inr r"
        by (subst (asm) smart_loop.simps) (auto split: sum.splits)
      show ?thesis
      proof (cases r)
        case None
        with run hd nohd tr notr r have "k = i" by (subst (asm) smart_loop.simps) auto
        with pos tr notr show ?thesis by simp
      next
        case (Some j)
        with run hd nohd tr notr r
        have "smart_loop buf base e m (midi\<lparr>is_damaged := True\<rparr>) (i + int j) cur
              = Inr (midi', k)"
          by (subst (asm) smart_loop.simps) simp
        with "1.IH"(2)[of hd tr r j] hd nohd tr notr r Some short
        have "i + int j \<le> k \<and> base + k \<le> int (length buf)" by simp
        with pos tr notr show ?thesis by simp
      qed
    next
      case True
      note istr = this
      from run hd nohd tr istr obtain t x where
        t: "extract_mtrk buf (base + i) = Inr (Some t)" and x: "extratrunc t = Some x"
        by (subst (asm) smart_loop.simps) (auto split: sum.splits option.splits)
      from extract_mtrk_advance[OF t x short]
      have adv: "8 \<le> advance t x" "base + i + advance t x \<le> int (length buf)"
        by simp_all
      show ?thesis
      proof (cases "numtracks midi \<le> cur + 1")
        case True
        with run hd nohd tr istr t x have "k = i + advance t x"
          by (subst (asm) smart_loop.simps) (auto simp: advance_def)
        with adv pos show ?thesis by simp
      next
        case False
        with run hd nohd tr istr t x
        have "smart_loop buf base e m (midi\<lparr>tracks := tracks midi @ [t]\<rparr>)
                (i + int (u32 (size_mtrk t + 8)) - (if x then 4 else 0)) (cur + 1)
              = Inr (midi', k)"
          by (subst (asm) smart_loop.simps) simp
        with "1.IH"(1)[of hd tr "Some t" t x] hd nohd tr istr t x False short
        have "i + advance t x \<le> k \<and> base + k \<le> int (length buf)"
          by (simp add: advance_def)
        with adv pos show ?thesis by simp
      qed
    qed
  qed
qed

lemma smart_extract_progress:
  assumes "smart_extract midi buf base e m off = Inr (adv, evs)"
      and "length buf < 4294967292"
  shows "base + int adv \<le> int (length buf)
         \<and> (strncmp buf base MTrk_tag = Inr True \<longrightarrow> 8 \<le> adv)"
proof -
  from assms(1) obtain midi' k where
    run: "smart_loop buf base e m midi 0 0 = Inr (midi', k)" and adv: "adv = nat (k mod 4294967296)"
    by (cases "smart_loop buf base e m midi 0 0")
       (auto simp: smart_extract_def bindE_def split: sum.splits prod.splits)
  from smart_loop_progress[OF run assms(2)]
  have k: "0 \<le> k" "base + k \<le> int (length buf)" "0 \<le> base"
    and first: "strncmp buf base MTrk_tag = Inr True \<longrightarrow> 8 \<le> k"
    by simp_all
  from k assms(2) have "k < 4294967296" by linarith
  with k adv have "int adv = k" by simp
  with k first show ?thesis by auto
qed

lemma scan_step_progress:
  assumes step: "scan_step buf i = Inr (i', evs)"
      and short: "length buf < 4294967292"
  shows "i < i' \<and> i' \<le> int (length buf)"
proof -
  from step obtain orphan where o: "strncmp buf i MTrk_tag = Inr orphan"
    by (cases "strncmp buf i MTrk_tag") (auto simp: scan_step_def bindE_def)
  from strncmp_tag_bounds(2)[OF o] have pos: "0 \<le> i" "i < int (length buf)" by simp_all
  show ?thesis
  proof (cases orphan)
    case True
    with step o have "orphan_step buf i = Inr (i', evs)"
      by (simp add: scan_step_def bindE_def)
    then obtain n adv where
      "smart_extract \<lparr>miditype = 1, numtracks = n, timecode = 120, is_damaged = True,
                      is_generated = True, tracks = []\<rparr>
         buf i (nat ((int (length buf) - i) mod 18446744073709551616)) 32768 i = Inr (adv, evs)"
      and i': "i' = i + int adv"
      by (auto simp: orphan_step_def bindE_def split: sum.splits prod.splits)
    from smart_extract_progress[OF this(1) short] o True i' show ?thesis by simp
  next
    case False
    with step o obtain header where h: "strncmp buf i MThd_tag = Inr header"
      by (cases "strncmp buf i MThd_tag") (auto simp: scan_step_def bindE_def)
    show ?thesis
    proof (cases header)
      case nh: False
      with step o False h have "i' = i + 1" by (simp add: scan_step_def bindE_def)
      with pos show ?thesis by simp
    next
      case True
      with step o False h have "header_step buf i = Inr (i', evs)"
        by (simp add: scan_step_def bindE_def)
      then obtain midi adv where
        "smart_extract midi buf (i + 14)
           (nat ((int (length buf) - (i + 14)) mod 18446744073709551616)) 32768 (i + 14 - 14)
         = Inr (adv, evs)"
        and i': "i' = i + 14 + int adv"
        by (auto simp: header_step_def bindE_def split: sum.splits option.splits prod.splits)
      from smart_extract_progress[OF this(1) short] i' show ?thesis by simp
    qed
  qed
qed

lemma scan_returns:
  assumes short: "length buf < 4294967292"
  shows "\<exists>r. scan buf i acc = Some r"
proof (induction "nat (int (length buf) - i)" arbitrary: i acc rule: less_induct)
  case less
  show ?case
  proof (cases "i < int (length buf)")
    case False
    then show ?thesis by (subst scan.simps) simp
  next
    case True
    show ?thesis
    proof (cases "scan_step buf i")
      case (Inl e)
      with True show ?thesis by (subst scan.simps) simp
    next
      case (Inr r)
      obtain i' evs where r: "r = (i', evs)" by (cases r)
      from scan_step_progress[OF Inr[unfolded r] short] have "i < i'" by simp
      with True have "nat (int (length buf) - i') < nat (int (length buf) - i)" by simp
      from less[OF this, of "acc @ evs"] Inr r True show ?thesis
        by (subst scan.simps) simp
    qed
  qed
qed

text \<open>
  On a buffer shorter than \<open>2 ^ 32 - 4\<close> bytes every iteration of the scanner that ends
  without a fault strictly increases the offset and does not pass the end of the buffer,
  and the run of the model ends: with the events of the scan, or with the fault at which
  the behaviour of the C program stops being defined.
\<close>

theorem scan_returns_below_4GiB:
  assumes "length buf < 4294967292"
  shows "(\<exists>r. scan buf 0 [] = Some r)
         \<and> (\<forall>i i' evs. scan_step buf i = Inr (i', evs) \<longrightarrow> i < i' \<and> i' \<le> int (length buf))"
  using assms scan_returns[of buf 0 "[]"] scan_step_progress[of buf] by blast

definition x3_buf :: buffer where
  "x3_buf = [0x58] @ MThd_tag @ [0, 0, 0, 6, 0, 1, 0, 1, 0, 0x60] @
            MTrk_tag @ [0, 0, 0, 4] @ end_of_track"

theorem scan_returns_below_4GiB_witness:
  "length x3_buf < 4294967292
   \<and> scan_step x3_buf 0 = Inr (1, [])
   \<and> scan_step x3_buf 1 = Inr (27, [Wrote (1, OK) (drop 1 x3_buf)])
   \<and> scan x3_buf 0 [] = Some (Inr [Wrote (1, OK) (drop 1 x3_buf)])"
proof -
  have a: "length x3_buf < 4294967292" by (simp add: x3_buf_def carver_tags)
  have b: "scan_step x3_buf 0 = Inr (1, [])"
    by (simp add: x3_buf_def carver_tags carver_defs carver_loops)
  have c: "scan_step x3_buf 1 = Inr (27, [Wrote (1, OK) (drop 1 x3_buf)])"
    by (simp add: x3_buf_def carver_tags carver_defs carver_loops)
  have d: "scan x3_buf 0 [] = Some (Inr [Wrote (1, OK) (drop 1 x3_buf)])"
    by (simp add: x3_buf_def carver_tags carver_defs carver_loops)
  from scan_returns_below_4GiB [OF a] a b c d show ?thesis by simp
qed

section \<open>The advance after a split (C5)\<close>

subsection \<open>Header tags that the backward search does not find\<close>





subsection \<open>The tag that the backward search finds\<close>
















end
